theory Spec2Isabelle
  imports Complex_Main "HOL-Library.Stream"
begin

section \<open>Exceptions\<close>

text \<open>
  Every \<^verbatim>\<open>raise\<close> of the sources, and every exception the indexing and library calls
  they make can raise, is a value of this type. A function that can raise returns
  \<open>error + 'a\<close>, with \<open>Inl\<close> for the exception.
\<close>

datatype error =
    NoObservations
      \<comment> \<open>\<^verbatim>\<open>Exception("No observations were provided.")\<close>\<close>
  | NonReversibleNotImplemented
      \<comment> \<open>\<^verbatim>\<open>Exception('Non-reversible transition matrix sampling not yet implemented.')\<close>\<close>
  | NotImplementedError string
  | IndexError
  | ValueError

fun bindE :: "error + 'a \<Rightarrow> ('a \<Rightarrow> error + 'b) \<Rightarrow> error + 'b" where
  "bindE (Inl e) f = Inl e"
| "bindE (Inr x) f = f x"

text \<open>A \<^verbatim>\<open>for x in xs: body\<close> loop over a state, stopping at the first exception.\<close>

fun forM :: "'a list \<Rightarrow> ('a \<Rightarrow> 's \<Rightarrow> error + 's) \<Rightarrow> 's \<Rightarrow> error + 's" where
  "forM [] body s = Inr s"
| "forM (x # xs) body s = bindE (body x s) (forM xs body)"

text \<open>\<^verbatim>\<open>range(n)\<close> for a Python integer: empty when \<open>n \<le> 0\<close>.\<close>

definition py_range :: "int \<Rightarrow> nat list" where
  "py_range n = [0..<nat n]"


section \<open>bhmm/init/api.py\<close>

text \<open>
  The two initialisers \<^verbatim>\<open>discrete.initial_model_discrete\<close> and
  \<^verbatim>\<open>gaussian.initial_model_gaussian1d\<close> live in modules that are imported inside the
  branches; a delegation is the call with its arguments, and \<open>run\<close> (a parameter)
  is what executing that call gives.
\<close>

datatype 'o initializer_call =
    Initial_model_discrete "'o list list" nat nat bool bool
      \<comment> \<open>observations, nstates, lag, reversible, verbose\<close>
  | Initial_model_gaussian1d "'o list list" nat bool bool
      \<comment> \<open>observations, nstates, reversible, verbose\<close>

definition generate_initial_model ::
  "('o initializer_call \<Rightarrow> error + 'm) \<Rightarrow> 'o list list \<Rightarrow> nat \<Rightarrow> string \<Rightarrow> bool \<Rightarrow> error + 'm" where
  "generate_initial_model run observations nstates output_model_type verbose =
     (if output_model_type = ''discrete'' then
        run (Initial_model_discrete observations nstates 1 True verbose)
      else if output_model_type = ''gaussian'' then
        run (Initial_model_gaussian1d observations nstates True verbose)
      else
        Inl (NotImplementedError
               (''output model type '' @ output_model_type @ '' not yet implemented.'')))"


section \<open>numpy and scipy, as far as the sampler uses them\<close>

text \<open>
  A \<^verbatim>\<open>float64\<close>: the finite values are idealised as reals (rounding and overflow are
  not modelled), the special values \<open>inf\<close>, \<open>-inf\<close> and \<open>nan\<close> behave as in IEEE 754.
\<close>

datatype float64 = Fin real | PInf | NInf | NaN

fun fadd :: "float64 \<Rightarrow> float64 \<Rightarrow> float64" where
  "fadd NaN y = NaN"
| "fadd x NaN = NaN"
| "fadd PInf NInf = NaN"
| "fadd NInf PInf = NaN"
| "fadd PInf y = PInf"
| "fadd x PInf = PInf"
| "fadd NInf y = NInf"
| "fadd x NInf = NInf"
| "fadd (Fin a) (Fin b) = Fin (a + b)"

fun fneg :: "float64 \<Rightarrow> float64" where
  "fneg (Fin a) = Fin (- a)"
| "fneg PInf = NInf"
| "fneg NInf = PInf"
| "fneg NaN = NaN"

instantiation float64 :: "{zero, plus, uminus, minus}"
begin
definition zero_float64 :: float64 where "zero_float64 = Fin 0"
definition plus_float64 :: "float64 \<Rightarrow> float64 \<Rightarrow> float64" where "plus_float64 = fadd"
definition uminus_float64 :: "float64 \<Rightarrow> float64" where "uminus_float64 = fneg"
definition minus_float64 :: "float64 \<Rightarrow> float64 \<Rightarrow> float64" where
  "minus_float64 x y = fadd x (fneg y)"
instance ..
end

fun fexp :: "float64 \<Rightarrow> float64" where
  "fexp (Fin a) = Fin (exp a)"
| "fexp PInf = PInf"
| "fexp NInf = Fin 0"
| "fexp NaN = NaN"

fun flog :: "float64 \<Rightarrow> float64" where
  "flog (Fin a) = (if 0 < a then Fin (ln a) else if a = 0 then NInf else NaN)"
| "flog PInf = PInf"
| "flog NInf = NaN"
| "flog NaN = NaN"

fun isfinite :: "float64 \<Rightarrow> bool" where
  "isfinite (Fin a) = True"
| "isfinite x = False"

text \<open>\<^verbatim>\<open>numpy.maximum\<close>: a \<open>nan\<close> on either side gives \<open>nan\<close>.\<close>

fun fmax :: "float64 \<Rightarrow> float64 \<Rightarrow> float64" where
  "fmax NaN y = NaN"
| "fmax x NaN = NaN"
| "fmax PInf y = PInf"
| "fmax x PInf = PInf"
| "fmax NInf y = y"
| "fmax x NInf = x"
| "fmax (Fin a) (Fin b) = Fin (max a b)"

text \<open>\<^verbatim>\<open>numpy.amax\<close> of a one-dimensional array; an empty array has no maximum.\<close>

definition amax :: "float64 list \<Rightarrow> error + float64" where
  "amax a = (case a of [] \<Rightarrow> Inl ValueError | x # xs \<Rightarrow> Inr (foldl fmax x xs))"

definition np_sum :: "float64 list \<Rightarrow> float64" where
  "np_sum a = foldl (+) 0 a"

text \<open>
  \<^verbatim>\<open>scipy.misc.logsumexp\<close> of a one-dimensional array (library code): the maximum is
  subtracted before exponentiating and added back after the logarithm; a maximum that
  is not finite is replaced by 0.
\<close>

definition logsumexp :: "float64 list \<Rightarrow> error + float64" where
  "logsumexp a =
     bindE (amax a) (\<lambda>a_max.
       let a_max = (if isfinite a_max then a_max else 0);
           tmp = map fexp (map (\<lambda>x. x - a_max) a);
           out = flog (np_sum tmp)
       in Inr (out + a_max))"

text \<open>
  Indexing with a Python integer: a negative index counts from the end, an index out
  of range raises IndexError.
\<close>

definition py_index :: "int \<Rightarrow> nat \<Rightarrow> error + nat" where
  "py_index i n =
     (if 0 \<le> i \<and> i < int n then Inr (nat i)
      else if i < 0 \<and> - int n \<le> i then Inr (nat (i + int n))
      else Inl IndexError)"

definition getitem :: "'a list \<Rightarrow> int \<Rightarrow> error + 'a" where
  "getitem xs i = bindE (py_index i (length xs)) (\<lambda>j. Inr (xs ! j))"

definition setitem :: "'a list \<Rightarrow> int \<Rightarrow> 'a \<Rightarrow> error + 'a list" where
  "setitem xs i v = bindE (py_index i (length xs)) (\<lambda>j. Inr (xs[j := v]))"

text \<open>A two-dimensional array: its shape and its rows.\<close>

record 'a ndarray2 =
  shape0 :: nat
  shape1 :: nat
  rows :: "'a list list"

definition zeros2 :: "nat \<Rightarrow> nat \<Rightarrow> float64 ndarray2" where
  "zeros2 n m = \<lparr>shape0 = n, shape1 = m, rows = replicate n (replicate m 0)\<rparr>"

text \<open>\<^verbatim>\<open>a[:,t]\<close>\<close>

definition column :: "'a ndarray2 \<Rightarrow> int \<Rightarrow> error + 'a list" where
  "column a t = bindE (py_index t (shape1 a)) (\<lambda>j. Inr (map (\<lambda>r. r ! j) (rows a)))"

text \<open>\<^verbatim>\<open>a[i,t] = v\<close>\<close>

definition setitem2 :: "'a ndarray2 \<Rightarrow> int \<Rightarrow> int \<Rightarrow> 'a \<Rightarrow> error + 'a ndarray2" where
  "setitem2 a i t v =
     bindE (py_index i (shape0 a)) (\<lambda>i'.
     bindE (py_index t (shape1 a)) (\<lambda>t'.
       Inr (a\<lparr>rows := (rows a)[i' := (rows a ! i')[t' := v]]\<rparr>)))"

text \<open>
  \<^verbatim>\<open>x + y\<close> on one-dimensional arrays: elementwise, an array of length 1 is broadcast,
  any other mismatch of the lengths raises ValueError.
\<close>

definition np_add :: "float64 list \<Rightarrow> float64 list \<Rightarrow> error + float64 list" where
  "np_add xs ys =
     (if length xs = length ys then Inr (map2 (+) xs ys)
      else if length xs = 1 then Inr (map (\<lambda>y. hd xs + y) ys)
      else if length ys = 1 then Inr (map (\<lambda>x. x + hd ys) xs)
      else Inl ValueError)"

text \<open>\<^verbatim>\<open>np.exp(x - c)\<close> for an array \<open>x\<close> and a scalar \<open>c\<close>.\<close>

definition exp_minus :: "float64 list \<Rightarrow> float64 \<Rightarrow> float64 list" where
  "exp_minus x c = map fexp (map (\<lambda>v. v - c) x)"


section \<open>bhmm/bhmm\_class.py: the data\<close>

text \<open>
  An attribute of a Python object: not set, set to \<^verbatim>\<open>None\<close>, or set to a value.
\<close>

datatype 'a pyattr = Unset | PyNone | Val 'a

text \<open>
  The attributes of an \<^verbatim>\<open>HMM\<close> object that the sampler reads or writes.
  \<^verbatim>\<open>hidden_state_trajectories\<close> is the attribute the sweep writes;
  \<^verbatim>\<open>hidden_state_trajectory\<close> is the attribute that \<^verbatim>\<open>sample\<close> assigns. The output
  model is an object of its own: in a stored object \<open>'r\<close> is an address
  (\<open>nat hmm\<close>), in the value of a model it is the output model itself (\<open>'p hmm\<close>).
\<close>

record 'r hmm =
  nstates :: nat
  Tij :: "float64 ndarray2"
  logPi :: "float64 list"
  logTij :: "float64 ndarray2"
  output_model :: 'r
  hidden_state_trajectories :: "nat list list pyattr"
  hidden_state_trajectory :: "nat list list pyattr"

text \<open>
  The objects that exist: the \<^verbatim>\<open>HMM\<close> objects and the output model objects, each
  addressed by its position (a reference is an address, allocation appends), and the
  state of the process-wide generator \<^verbatim>\<open>np.random\<close>, as the stream of the uniform
  variates it will deliver.
\<close>

record ('p, 'u) world =
  hmm_objects :: "nat hmm list"
  output_model_objects :: "'p list"
  np_random :: "'u stream"

text \<open>What a reference to an \<^verbatim>\<open>HMM\<close> object stands for: the object with its output model.\<close>

definition deref :: "('p, 'u) world \<Rightarrow> nat \<Rightarrow> 'p hmm" where
  "deref w a =
     (let m = hmm_objects w ! a in
      \<lparr>nstates = nstates m, Tij = Tij m, logPi = logPi m, logTij = logTij m,
       output_model = output_model_objects w ! output_model m,
       hidden_state_trajectories = hidden_state_trajectories m,
       hidden_state_trajectory = hidden_state_trajectory m\<rparr>)"

text \<open>
  The collaborators whose code is not part of the sampler: the methods of \<^verbatim>\<open>HMM\<close> and
  of its output model, the reversible transition matrix sampler (constructed from
  the count matrix and run for a number of steps), and the selection that
  \<^verbatim>\<open>np.random.choice(range(n), size=1, p=p)\<close> makes from one uniform variate (it raises
  ValueError on a probability vector it rejects).
\<close>

record ('o, 'p, 'u) env =
  log_emission_probability :: "'p hmm \<Rightarrow> nat \<Rightarrow> 'o \<Rightarrow> float64"
  collect_observations_in_state :: "'p hmm \<Rightarrow> 'o list list \<Rightarrow> nat \<Rightarrow> 'o list"
  count_matrix :: "'p hmm \<Rightarrow> nat list list"
  output_model_sample :: "'o list list \<Rightarrow> 'p \<Rightarrow> 'u stream \<Rightarrow> 'p \<times> 'u stream"
  transition_matrix_sampler_rev ::
    "nat list list \<Rightarrow> int \<Rightarrow> 'u stream \<Rightarrow> float64 ndarray2 \<times> 'u stream"
  choice :: "nat \<Rightarrow> float64 list \<Rightarrow> 'u \<Rightarrow> error + nat"

text \<open>
  The attributes of a \<^verbatim>\<open>BHMM\<close> object; \<open>model\<close> is a reference, and \<open>self_nstates\<close> is
  \<^verbatim>\<open>self.nstates\<close> (the model has a number of states of its own).
\<close>

record 'o bhmm =
  verbose :: bool
  reversible :: bool
  self_nstates :: nat
  observations :: "'o list list"
  ntrajectories :: nat
  model :: nat
  transition_matrix_sampling_steps :: int

text \<open>An assignment to an attribute of the \<^verbatim>\<open>HMM\<close> object at an address.\<close>

definition set_model :: "nat \<Rightarrow> (nat hmm \<Rightarrow> nat hmm) \<Rightarrow> ('p, 'u) world \<Rightarrow> ('p, 'u) world" where
  "set_model a f w = w\<lparr>hmm_objects := (hmm_objects w)[a := f (hmm_objects w ! a)]\<rparr>"

text \<open>
  \<^verbatim>\<open>copy.deepcopy\<close> of an \<^verbatim>\<open>HMM\<close> object: a new output model object and a new \<^verbatim>\<open>HMM\<close>
  object that refers to it; the arrays and lists are values of the record and are
  copied with it.
\<close>

definition deepcopy :: "nat \<Rightarrow> ('p, 'u) world \<Rightarrow> nat \<times> ('p, 'u) world" where
  "deepcopy a w =
     (let m = hmm_objects w ! a;
          om = output_model_objects w ! output_model m;
          om' = length (output_model_objects w);
          a' = length (hmm_objects w)
      in (a', w\<lparr>hmm_objects := hmm_objects w @ [m\<lparr>output_model := om'\<rparr>],
                output_model_objects := output_model_objects w @ [om]\<rparr>))"


text \<open>
  \<^verbatim>\<open>BHMM.__init__\<close>. The initial model is a reference or \<^verbatim>\<open>None\<close>; without one, the
  model comes from \<^verbatim>\<open>_generateInitialModel\<close>, which fits an \<^verbatim>\<open>MLHMM\<close> (a parameter here:
  it creates the model and returns a reference to it). The primed names are the
  arguments of the constructor.
\<close>

definition init ::
  "('o list list \<Rightarrow> nat \<Rightarrow> bool \<Rightarrow> string \<Rightarrow> ('p, 'u) world \<Rightarrow> error + nat \<times> ('p, 'u) world)
     \<Rightarrow> 'o list list \<Rightarrow> nat \<Rightarrow> nat option \<Rightarrow> bool \<Rightarrow> bool \<Rightarrow> int \<Rightarrow> string \<Rightarrow> ('p, 'u) world
     \<Rightarrow> error + 'o bhmm \<times> ('p, 'u) world" where
  "init generateInitialModel observations' nstates' initial_model reversible' verbose'
        transition_matrix_sampling_steps' output_model_type w =
     (if length observations' = 0 then Inl NoObservations
      else
        bindE (case initial_model of
                 Some a \<Rightarrow> Inr (deepcopy a w)
               | None \<Rightarrow> generateInitialModel observations' nstates' reversible' output_model_type w)
          (\<lambda>(a, w).
             Inr (\<lparr>verbose = verbose', reversible = reversible', self_nstates = nstates',
                   observations = observations', ntrajectories = length observations',
                   model = a,
                   transition_matrix_sampling_steps = transition_matrix_sampling_steps'\<rparr>, w)))"


section \<open>bhmm/bhmm\_class.py: forward filtering, backward sampling\<close>

text \<open>The forward part of \<^verbatim>\<open>_sampleHiddenStateTrajectory\<close> (lines 217 to 226).\<close>

definition forward_part ::
  "('o, 'p, 'u) env \<Rightarrow> 'p hmm \<Rightarrow> 'o list \<Rightarrow> error + float64 ndarray2" where
  "forward_part e m o_t =
     (let T = length o_t;
          log_alpha_it = zeros2 (nstates m) T
      in
      bindE (forM (py_range (int (nstates m)))
               (\<lambda>i a.
                  bindE (getitem (logPi m) (int i)) (\<lambda>lp.
                  bindE (getitem o_t 0) (\<lambda>o0.
                    setitem2 a (int i) 0 (lp + log_emission_probability e m i o0))))
               log_alpha_it)
        (\<lambda>log_alpha_it.
           forM [1..<T]
             (\<lambda>t a.
                forM (py_range (int (nstates m)))
                  (\<lambda>j a.
                     bindE (column a (int t - 1)) (\<lambda>prev.
                     bindE (column (logTij m) (int j)) (\<lambda>lt.
                     bindE (np_add prev lt) (\<lambda>x.
                     bindE (logsumexp x) (\<lambda>l.
                     bindE (getitem o_t (int t)) (\<lambda>ot.
                       setitem2 a (int j) (int t)
                         (l + log_emission_probability e m j ot)))))))
                  a)
             log_alpha_it))"

text \<open>
  The backward part (lines 232 to 249). The loop variable runs over
  \<^verbatim>\<open>range(T-2, -1, -1)\<close>, which is empty for \<open>T \<le> 1\<close>. The loop state is the trajectory
  and the generator; each call of \<^verbatim>\<open>np.random.choice\<close> takes one variate from the
  generator.
\<close>

definition backward_part ::
  "('o, 'p, 'u) env \<Rightarrow> 'p hmm \<Rightarrow> float64 ndarray2 \<Rightarrow> nat \<Rightarrow> 'u stream
     \<Rightarrow> error + (nat list \<times> 'u stream)" where
  "backward_part e m log_alpha_it T g =
     (let s_t = replicate T (0::nat) in
      bindE (column log_alpha_it (int T - 1)) (\<lambda>log_p_i.
      bindE (column log_alpha_it (int T - 1)) (\<lambda>last_column.
      bindE (logsumexp last_column) (\<lambda>l.
      let p_i = exp_minus log_p_i l in
      bindE (choice e (nstates m) p_i (shd g)) (\<lambda>k.
      bindE (setitem s_t (int T - 1) k) (\<lambda>s_t.
        forM (rev [0..<T - 1])
          (\<lambda>t (s_t, g).
             bindE (column log_alpha_it (int t)) (\<lambda>c.
             bindE (getitem s_t (int t + 1)) (\<lambda>nxt.
             bindE (column (logTij m) (int nxt)) (\<lambda>lt.
             bindE (np_add c lt) (\<lambda>log_p_i.
             bindE (logsumexp log_p_i) (\<lambda>l.
             let p_i = exp_minus log_p_i l in
             bindE (choice e (nstates m) p_i (shd g)) (\<lambda>k.
             bindE (setitem s_t (int t) k) (\<lambda>s_t.
               Inr (s_t, stl g)))))))))
          (s_t, stl g)))))))"

text \<open>
  \<^verbatim>\<open>_sampleHiddenStateTrajectory(self, o_t)\<close>: the model is the one \<^verbatim>\<open>self.model\<close> refers
  to, the generator is the process-wide one.
\<close>

definition sampleHiddenStateTrajectory ::
  "('o, 'p, 'u) env \<Rightarrow> 'o bhmm \<Rightarrow> 'o list \<Rightarrow> ('p, 'u) world
     \<Rightarrow> error + (nat list \<times> ('p, 'u) world)" where
  "sampleHiddenStateTrajectory e self o_t w =
     (let T = length o_t;
          m = deref w (model self)
      in
      bindE (forward_part e m o_t) (\<lambda>log_alpha_it.
      bindE (backward_part e m log_alpha_it T (np_random w)) (\<lambda>(s_t, g).
        Inr (s_t, w\<lparr>np_random := g\<rparr>))))"


section \<open>bhmm/bhmm\_class.py: the Gibbs sweep and the sampling loop\<close>

text \<open>\<^verbatim>\<open>self.model.hidden_state_trajectories.append(s)\<close>\<close>

definition append_trajectory :: "nat list \<Rightarrow> 'r hmm \<Rightarrow> 'r hmm" where
  "append_trajectory s m =
     (case hidden_state_trajectories m of
        Val trajs \<Rightarrow> m\<lparr>hidden_state_trajectories := Val (trajs @ [s])\<rparr>
      | _ \<Rightarrow> m)"

definition updateHiddenStateTrajectories ::
  "('o, 'p, 'u) env \<Rightarrow> 'o bhmm \<Rightarrow> ('p, 'u) world \<Rightarrow> error + ('p, 'u) world" where
  "updateHiddenStateTrajectories e self w =
     forM (py_range (int (ntrajectories self)))
       (\<lambda>trajectory_index w.
          bindE (getitem (observations self) (int trajectory_index)) (\<lambda>o_t.
          bindE (sampleHiddenStateTrajectory e self o_t w) (\<lambda>(hidden_state_trajectory, w).
            Inr (set_model (model self) (append_trajectory hidden_state_trajectory) w))))
       (set_model (model self) (\<lambda>m. m\<lparr>hidden_state_trajectories := Val []\<rparr>) w)"

definition updateEmissionProbabilities ::
  "('o, 'p, 'u) env \<Rightarrow> 'o bhmm \<Rightarrow> ('p, 'u) world \<Rightarrow> error + ('p, 'u) world" where
  "updateEmissionProbabilities e self w =
     (let m = deref w (model self);
          observations_by_state =
            map (\<lambda>state. collect_observations_in_state e m (observations self) state)
              (py_range (int (nstates m)));
          (om, g) = output_model_sample e observations_by_state (output_model m) (np_random w)
      in Inr (w\<lparr>output_model_objects :=
                  (output_model_objects w)[output_model (hmm_objects w ! model self) := om],
                np_random := g\<rparr>))"

definition updateTransitionMatrix ::
  "('o, 'p, 'u) env \<Rightarrow> 'o bhmm \<Rightarrow> ('p, 'u) world \<Rightarrow> error + ('p, 'u) world" where
  "updateTransitionMatrix e self w =
     (let C = count_matrix e (deref w (model self)) in
      if reversible self = True then
        (let (T', g) = transition_matrix_sampler_rev e C
                         (transition_matrix_sampling_steps self) (np_random w)
         in Inr (set_model (model self) (\<lambda>m. m\<lparr>Tij := T'\<rparr>) (w\<lparr>np_random := g\<rparr>)))
      else
        Inl NonReversibleNotImplemented)"

text \<open>\<^verbatim>\<open>_update\<close>: one Gibbs sweep (the timing and the printing are left out).\<close>

definition update ::
  "('o, 'p, 'u) env \<Rightarrow> 'o bhmm \<Rightarrow> ('p, 'u) world \<Rightarrow> error + ('p, 'u) world" where
  "update e self w =
     bindE (updateHiddenStateTrajectories e self w) (\<lambda>w.
     bindE (updateEmissionProbabilities e self w) (\<lambda>w.
       updateTransitionMatrix e self w))"

text \<open>
  \<^verbatim>\<open>BHMM.sample\<close>. The state of the collecting loop is the list \<open>models\<close> (references
  to the copies) and the world.
\<close>

definition sample ::
  "('o, 'p, 'u) env \<Rightarrow> 'o bhmm \<Rightarrow> int \<Rightarrow> int \<Rightarrow> int \<Rightarrow> bool \<Rightarrow> ('p, 'u) world
     \<Rightarrow> error + (nat list \<times> ('p, 'u) world)" where
  "sample e self nsamples nburn nthin save_hidden_state_trajectory w =
     bindE (forM (py_range nburn) (\<lambda>iteration. update e self) w) (\<lambda>w.
       forM (py_range nsamples)
         (\<lambda>iteration (models, w).
            bindE (forM (py_range nthin) (\<lambda>thin. update e self) w) (\<lambda>w.
              let (model_copy, w) = deepcopy (model self) w;
                  w = (if \<not> save_hidden_state_trajectory
                       then set_model model_copy (\<lambda>m. m\<lparr>hidden_state_trajectory := PyNone\<rparr>) w
                       else w)
              in Inr (models @ [model_copy], w)))
         ([], w))"


section \<open>Notions used to state the properties\<close>

text \<open>
  A two-dimensional array whose rows agree with its shape, and a model whose cached
  logarithms have the dimensions of its number of states (at least one state).
\<close>

definition well_shaped :: "'a ndarray2 \<Rightarrow> nat \<Rightarrow> nat \<Rightarrow> bool" where
  "well_shaped a n T \<longleftrightarrow>
     shape0 a = n \<and> shape1 a = T \<and> length (rows a) = n \<and> (\<forall>i<n. length (rows a ! i) = T)"

definition hmm_wf :: "'p hmm \<Rightarrow> bool" where
  "hmm_wf m \<longleftrightarrow>
     0 < nstates m \<and> length (logPi m) = nstates m
     \<and> well_shaped (logTij m) (nstates m) (nstates m)"

text \<open>\<^verbatim>\<open>a[i,t]\<close> for indices in range.\<close>

definition elem :: "'a ndarray2 \<Rightarrow> nat \<Rightarrow> nat \<Rightarrow> 'a" where
  "elem a i t = rows a ! i ! t"

text \<open>
  The two equations of the forward recursion, for one entry of \<^verbatim>\<open>log_alpha_it\<close>: the
  first column, and a later column from the column before it.
\<close>

definition initialised ::
  "('o, 'p, 'u) env \<Rightarrow> 'p hmm \<Rightarrow> 'o list \<Rightarrow> float64 ndarray2 \<Rightarrow> nat \<Rightarrow> bool" where
  "initialised e m o_t a i \<longleftrightarrow>
     elem a i 0 = logPi m ! i + log_emission_probability e m i (o_t ! 0)"

definition recursed ::
  "('o, 'p, 'u) env \<Rightarrow> 'p hmm \<Rightarrow> 'o list \<Rightarrow> float64 ndarray2 \<Rightarrow> nat \<Rightarrow> nat \<Rightarrow> bool" where
  "recursed e m o_t a j t \<longleftrightarrow>
     (\<exists>l. logsumexp (map (\<lambda>k. elem a k (t - 1) + elem (logTij m) k j) [0..<nstates m]) = Inr l
        \<and> elem a j t = l + log_emission_probability e m j (o_t ! t))"

text \<open>
  The backward pass. The unnormalised log-probabilities of the last draw and of the
  draw at \<open>t\<close> given the state drawn at \<open>t + 1\<close>; one iteration of the backward loop
  for well-formed arguments, as a function of the variate it consumes; and the
  equations that a returned trajectory satisfies (the draw for position \<open>t\<close> consumes
  variate number \<open>T - 1 - t\<close> of the generator).
\<close>

definition step_log_p :: "'p hmm \<Rightarrow> float64 ndarray2 \<Rightarrow> nat \<Rightarrow> nat \<Rightarrow> float64 list" where
  "step_log_p m a t nxt = map (\<lambda>i. elem a i t + elem (logTij m) i nxt) [0..<nstates m]"

definition last_log_p :: "'p hmm \<Rightarrow> float64 ndarray2 \<Rightarrow> nat \<Rightarrow> float64 list" where
  "last_log_p m a T = map (\<lambda>i. elem a i (T - 1)) [0..<nstates m]"

text \<open>
  The probability mass that a log-probability stands for: \<open>exp r\<close> for a finite entry and
  0 for \<open>-inf\<close>.
\<close>

fun weight :: "float64 \<Rightarrow> real" where
  "weight (Fin r) = exp r"
| "weight x = 0"

definition backward_draw ::
  "('o, 'p, 'u) env \<Rightarrow> 'p hmm \<Rightarrow> float64 ndarray2 \<Rightarrow> nat \<Rightarrow> nat list \<Rightarrow> 'u \<Rightarrow> error + nat list" where
  "backward_draw e m a t s u =
     (if s ! Suc t < nstates m then
        bindE (logsumexp (step_log_p m a t (s ! Suc t))) (\<lambda>l.
        bindE (choice e (nstates m) (exp_minus (step_log_p m a t (s ! Suc t)) l) u) (\<lambda>k.
          Inr (s[t := k])))
      else Inl IndexError)"

definition drawn_last ::
  "('o, 'p, 'u) env \<Rightarrow> 'p hmm \<Rightarrow> float64 ndarray2 \<Rightarrow> nat \<Rightarrow> 'u stream \<Rightarrow> nat list \<Rightarrow> bool" where
  "drawn_last e m a T g s \<longleftrightarrow>
     (\<exists>l. logsumexp (last_log_p m a T) = Inr l
        \<and> choice e (nstates m) (exp_minus (last_log_p m a T) l) (g !! 0) = Inr (s ! (T - 1)))"

definition drawn_at ::
  "('o, 'p, 'u) env \<Rightarrow> 'p hmm \<Rightarrow> float64 ndarray2 \<Rightarrow> nat \<Rightarrow> 'u stream \<Rightarrow> nat list \<Rightarrow> nat \<Rightarrow> bool" where
  "drawn_at e m a T g s t \<longleftrightarrow>
     (\<exists>l. logsumexp (step_log_p m a t (s ! Suc t)) = Inr l
        \<and> choice e (nstates m) (exp_minus (step_log_p m a t (s ! Suc t)) l) (g !! (T - 1 - t))
            = Inr (s ! t))"

text \<open>
  The store. A world is well-formed for a sampler when the sampler's model reference
  and the output model reference of that model are addresses of existing objects.
\<close>

definition wf_world :: "'o bhmm \<Rightarrow> ('p, 'u) world \<Rightarrow> bool" where
  "wf_world self w \<longleftrightarrow>
     model self < length (hmm_objects w)
     \<and> output_model (hmm_objects w ! model self) < length (output_model_objects w)"

text \<open>
  \<open>only_live_changed self w w'\<close>: from \<open>w\<close> to \<open>w'\<close> no object has been created, and no
  object other than the sampler's model and its output model has been written.
  \<open>separate self w a\<close>: the \<^verbatim>\<open>HMM\<close> object at \<open>a\<close> is not the sampler's model and does
  not share its output model with it. \<open>same_live self w v\<close>: the sampler's model has
  the same value, and the generator the same state, in \<open>w\<close> and \<open>v\<close>.
\<close>

definition only_live_changed :: "'o bhmm \<Rightarrow> ('p, 'u) world \<Rightarrow> ('p, 'u) world \<Rightarrow> bool" where
  "only_live_changed self w w' \<longleftrightarrow>
     length (hmm_objects w') = length (hmm_objects w)
     \<and> length (output_model_objects w') = length (output_model_objects w)
     \<and> output_model (hmm_objects w' ! model self) = output_model (hmm_objects w ! model self)
     \<and> (\<forall>a. a \<noteq> model self \<longrightarrow> hmm_objects w' ! a = hmm_objects w ! a)
     \<and> (\<forall>b. b \<noteq> output_model (hmm_objects w ! model self) \<longrightarrow>
            output_model_objects w' ! b = output_model_objects w ! b)"

definition separate :: "'o bhmm \<Rightarrow> ('p, 'u) world \<Rightarrow> nat \<Rightarrow> bool" where
  "separate self w a \<longleftrightarrow>
     a < length (hmm_objects w) \<and> a \<noteq> model self
     \<and> output_model (hmm_objects w ! a) < length (output_model_objects w)
     \<and> output_model (hmm_objects w ! a) \<noteq> output_model (hmm_objects w ! model self)"

definition same_live :: "'o bhmm \<Rightarrow> ('p, 'u) world \<Rightarrow> ('p, 'u) world \<Rightarrow> bool" where
  "same_live self w v \<longleftrightarrow>
     wf_world self w \<and> wf_world self v
     \<and> deref w (model self) = deref v (model self) \<and> np_random w = np_random v"

text \<open>
  \<open>k\<close> Gibbs sweeps in a row, and what a retained sample is: the value of the model,
  with \<^verbatim>\<open>hidden_state_trajectory\<close> set to \<^verbatim>\<open>None\<close> unless the trajectories are kept.
\<close>

definition sweeps ::
  "('o, 'p, 'u) env \<Rightarrow> 'o bhmm \<Rightarrow> nat \<Rightarrow> ('p, 'u) world \<Rightarrow> error + ('p, 'u) world" where
  "sweeps e self k w = forM [0..<k] (\<lambda>iteration. update e self) w"

definition snapshot :: "bool \<Rightarrow> 'p hmm \<Rightarrow> 'p hmm" where
  "snapshot save_hidden_state_trajectory m =
     (if save_hidden_state_trajectory then m else m\<lparr>hidden_state_trajectory := PyNone\<rparr>)"

text \<open>Lines 145 to 147 of \<^verbatim>\<open>sample\<close>: the copy and the assignment to it.\<close>

definition take_snapshot :: "'o bhmm \<Rightarrow> bool \<Rightarrow> ('p, 'u) world \<Rightarrow> nat \<times> ('p, 'u) world" where
  "take_snapshot self save_hidden_state_trajectory w =
     (let (model_copy, w) = deepcopy (model self) w;
          w = (if \<not> save_hidden_state_trajectory
               then set_model model_copy (\<lambda>m. m\<lparr>hidden_state_trajectory := PyNone\<rparr>) w
               else w)
      in (model_copy, w))"

text \<open>
  The state of the collecting loop after \<open>i\<close> iterations, started in \<open>wb\<close> with \<open>nt\<close>
  sweeps per sample, against the world \<open>v\<close> that \<open>i * nt\<close> sweeps alone produce from \<open>wb\<close>.
\<close>

definition collected ::
  "('o, 'p, 'u) env \<Rightarrow> 'o bhmm \<Rightarrow> bool \<Rightarrow> nat \<Rightarrow> ('p, 'u) world \<Rightarrow> nat
     \<Rightarrow> nat list \<times> ('p, 'u) world \<Rightarrow> ('p, 'u) world \<Rightarrow> bool" where
  "collected e self save nt wb i r v \<longleftrightarrow>
     sweeps e self (i * nt) wb = Inr v
     \<and> same_live self (snd r) v
     \<and> length (fst r) = i
     \<and> (\<forall>k<i. separate self (snd r) (fst r ! k)
            \<and> (\<exists>wk. sweeps e self ((k + 1) * nt) wb = Inr wk
                  \<and> deref (snd r) (fst r ! k) = snapshot save (deref wk (model self))))
     \<and> (\<forall>a. separate self wb a \<longrightarrow> separate self (snd r) a \<and> deref (snd r) a = deref wb a)"

section \<open>Example values\<close>

text \<open>
  A model with two states, uniform initial and transition probabilities, one
  observation sequence of length 2. The stand-ins for the collaborators: every
  observation has emission probability 1 in every state, the output model and the
  transition matrix sampler return fixed values, and the selection of
  \<^verbatim>\<open>np.random.choice\<close> takes the variate modulo the number of states as the state
  (and rejects an empty range), whatever the probability vector is.
\<close>

definition ex_env :: "(nat, unit, nat) env" where
  "ex_env = \<lparr>log_emission_probability = (\<lambda>m i ob. Fin 0),
           collect_observations_in_state = (\<lambda>m obs st. []),
           count_matrix = (\<lambda>m. [[0, 0], [0, 0]]),
           output_model_sample = (\<lambda>obs om g. (om, g)),
           transition_matrix_sampler_rev =
             (\<lambda>C n g. (\<lparr>shape0 = 2, shape1 = 2, rows = [[Fin (1/2), Fin (1/2)], [Fin (1/2), Fin (1/2)]]\<rparr>, g)),
           choice = (\<lambda>n p u. if n = 0 then Inl ValueError else Inr (u mod n))\<rparr>"

definition ex_hmm :: "nat hmm" where
  "ex_hmm = \<lparr>nstates = 2,
     Tij = \<lparr>shape0 = 2, shape1 = 2, rows = [[Fin (1/2), Fin (1/2)], [Fin (1/2), Fin (1/2)]]\<rparr>,
     logPi = [Fin (- ln 2), Fin (- ln 2)],
     logTij = \<lparr>shape0 = 2, shape1 = 2,
               rows = [[Fin (- ln 2), Fin (- ln 2)], [Fin (- ln 2), Fin (- ln 2)]]\<rparr>,
     output_model = 0,
     hidden_state_trajectories = PyNone, hidden_state_trajectory = Unset\<rparr>"

definition ex_world :: "(unit, nat) world" where
  "ex_world = \<lparr>hmm_objects = [ex_hmm], output_model_objects = [()],
                np_random = 0 ## 1 ## sconst 0\<rparr>"

definition ex_bhmm :: "nat bhmm" where
  "ex_bhmm = \<lparr>verbose = False, reversible = True, self_nstates = 2, observations = [[7, 8]], ntrajectories = 1,
     model = 0, transition_matrix_sampling_steps = 1000\<rparr>"

text \<open>The same collaborators, with an observation that has probability 0 in every state.\<close>

definition ex_env_degenerate :: "(nat, unit, nat) env" where
  "ex_env_degenerate = ex_env\<lparr>log_emission_probability := (\<lambda>m i ob. NInf)\<rparr>"

section \<open>Auxiliary lemmas\<close>

lemmas ex_defs = ex_env_def ex_hmm_def ex_world_def ex_bhmm_def

lemmas sampler_defs = sample_def update_def updateTransitionMatrix_def
  updateEmissionProbabilities_def updateHiddenStateTrajectories_def append_trajectory_def
  sampleHiddenStateTrajectory_def backward_part_def forward_part_def deepcopy_def set_model_def
  deref_def exp_minus_def np_add_def setitem2_def column_def zeros2_def
  setitem_def getitem_def py_index_def logsumexp_def np_sum_def amax_def py_range_def
  zero_float64_def plus_float64_def minus_float64_def

lemma bindE_eq_Inr: "bindE m f = Inr y \<longleftrightarrow> (\<exists>x. m = Inr x \<and> f x = Inr y)"
  by (cases m) auto

lemma bindE_eq_Inl: "bindE m f = Inl err \<longleftrightarrow> m = Inl err \<or> (\<exists>x. m = Inr x \<and> f x = Inl err)"
  by (cases m) auto

lemma forM_append: "forM (xs @ ys) body s = bindE (forM xs body s) (forM ys body)"
proof (induction xs arbitrary: s)
  case Nil
  show ?case by simp
next
  case (Cons x xs)
  show ?case
  proof (cases "body x s")
    case (Inl err)
    then show ?thesis by simp
  next
    case (Inr s1)
    then show ?thesis by (simp add: Cons.IH)
  qed
qed

lemma py_range_int [simp]: "py_range (int n) = [0..<n]"
  by (simp add: py_range_def)

lemma forM_upt_total:
  assumes "a \<le> b" and "I a s"
    and step: "\<And>k s. a \<le> k \<Longrightarrow> k < b \<Longrightarrow> I k s \<Longrightarrow> \<exists>s'. body k s = Inr s' \<and> I (Suc k) s'"
  shows "\<exists>s'. forM [a..<b] body s = Inr s' \<and> I b s'"
  using assms(1) step
proof (induction b)
  case 0
  with assms(2) show ?case by simp
next
  case (Suc b)
  show ?case
  proof (cases "a = Suc b")
    case True
    with assms(2) show ?thesis by simp
  next
    case False
    with Suc.prems(1) have ab: "a \<le> b" by simp
    have "\<exists>s'. forM [a..<b] body s = Inr s' \<and> I b s'"
      using ab Suc.prems(2) by (intro Suc.IH) auto
    then obtain s1 where s1: "forM [a..<b] body s = Inr s1" "I b s1" by blast
    from Suc.prems(2) [OF ab _ s1(2)] obtain s2 where s2: "body b s1 = Inr s2" "I (Suc b) s2"
      by auto
    from ab have "[a..<Suc b] = [a..<b] @ [b]" by simp
    then show ?thesis using s1 s2 by (simp add: forM_append)
  qed
qed

lemma forM_rev_upt_partial:
  assumes "forM (rev [0..<n]) body s = Inr s'" and "I n s"
    and step: "\<And>k s s'. k < n \<Longrightarrow> I (Suc k) s \<Longrightarrow> body k s = Inr s' \<Longrightarrow> I k s'"
  shows "I 0 s'"
  using assms
proof (induction n arbitrary: s)
  case 0
  then show ?case by simp
next
  case (Suc n)
  from Suc.prems(1) obtain s1 where s1: "body n s = Inr s1" "forM (rev [0..<n]) body s1 = Inr s'"
    by (auto simp: bindE_eq_Inr)
  have "I n s1" using Suc.prems(3) [of n s s1] Suc.prems(2) s1(1) by simp
  then show ?case using s1(2) Suc.prems(3) by (intro Suc.IH [of s1]) auto
qed

lemma py_index_nat [simp]: "i < n \<Longrightarrow> py_index (int i) n = Inr i"
  by (simp add: py_index_def)

lemma py_index_0 [simp]: "0 < n \<Longrightarrow> py_index 0 n = Inr 0"
  by (simp add: py_index_def)

lemma py_index_pred [simp]: "0 < t \<Longrightarrow> t \<le> n \<Longrightarrow> py_index (int t - 1) n = Inr (t - 1)"
  by (auto simp: py_index_def nat_diff_distrib)

lemma py_index_succ [simp]: "Suc t < n \<Longrightarrow> py_index (int t + 1) n = Inr (Suc t)"
  by (auto simp: py_index_def nat_add_distrib)

lemma py_index_last_empty [simp]: "py_index (int 0 - 1) 0 = Inl IndexError"
  by (simp add: py_index_def)

lemma column_nat: "t < shape1 a \<Longrightarrow> column a (int t) = Inr (map (\<lambda>r. r ! t) (rows a))"
  by (simp add: column_def)

lemma column_pred:
  "0 < t \<Longrightarrow> t \<le> shape1 a \<Longrightarrow> column a (int t - 1) = Inr (map (\<lambda>r. r ! (t - 1)) (rows a))"
  by (simp add: column_def)

lemma column_elem:
  "well_shaped a n T \<Longrightarrow> map (\<lambda>r. r ! t) (rows a) = map (\<lambda>k. elem a k t) [0..<n]"
  by (auto simp: well_shaped_def elem_def intro!: nth_equalityI)

lemma setitem2_nat:
  assumes "well_shaped a n T" "i < n" "t < T"
  shows "\<exists>a'. setitem2 a (int i) (int t) v = Inr a' \<and> well_shaped a' n T
          \<and> elem a' i t = v
          \<and> (\<forall>i' t'. i' < n \<and> (i' \<noteq> i \<or> t' \<noteq> t) \<longrightarrow> elem a' i' t' = elem a i' t')"
proof -
  let ?a' = "a\<lparr>rows := (rows a)[i := (rows a ! i)[t := v]]\<rparr>"
  have s: "setitem2 a (int i) (int t) v = Inr ?a'"
    using assms by (simp add: setitem2_def well_shaped_def)
  have w: "well_shaped ?a' n T"
    using assms by (auto simp: well_shaped_def nth_list_update)
  have e1: "elem ?a' i t = v"
    using assms by (simp add: elem_def well_shaped_def)
  have e2: "\<forall>i' t'. i' < n \<and> (i' \<noteq> i \<or> t' \<noteq> t) \<longrightarrow> elem ?a' i' t' = elem a i' t'"
    using assms by (auto simp: elem_def well_shaped_def nth_list_update)
  show ?thesis using s w e1 e2 by blast
qed

lemma amax_nonempty: "a \<noteq> [] \<Longrightarrow> \<exists>x. amax a = Inr x"
  by (cases a) (simp_all add: amax_def)

lemma logsumexp_nonempty: "a \<noteq> [] \<Longrightarrow> \<exists>l. logsumexp a = Inr l"
  using amax_nonempty [of a] by (auto simp: logsumexp_def Let_def)

lemma np_add_same_length:
  "length xs = length ys \<Longrightarrow> np_add xs ys = Inr (map2 (+) xs ys)"
  by (simp add: np_add_def)

lemma map2_columns:
  assumes "well_shaped a n T" "well_shaped b n n'"
  shows "np_add (map (\<lambda>r. r ! t) (rows a)) (map (\<lambda>r. r ! j) (rows b))
           = Inr (map (\<lambda>k. elem a k t + elem b k j) [0..<n])"
proof -
  have l: "length (rows a) = n" "length (rows b) = n"
    using assms by (simp_all add: well_shaped_def)
  have "map2 (+) (map (\<lambda>r. r ! t) (rows a)) (map (\<lambda>r. r ! j) (rows b))
          = map (\<lambda>k. elem a k t + elem b k j) [0..<n]"
    using l by (auto simp: elem_def intro!: nth_equalityI)
  then show ?thesis using l by (simp add: np_add_def)
qed


lemma getitem_nat [simp]: "i < length xs \<Longrightarrow> getitem xs (int i) = Inr (xs ! i)"
  by (simp add: getitem_def)

lemma getitem_0 [simp]: "xs \<noteq> [] \<Longrightarrow> getitem xs 0 = Inr (xs ! 0)"
  by (simp add: getitem_def)

lemma well_shaped_zeros2: "well_shaped (zeros2 n T) n T"
  by (simp add: well_shaped_def zeros2_def)

lemma forward_init:
  assumes lp: "nstates m \<le> length (logPi m)" and ne: "o_t \<noteq> []"
  shows "\<exists>a. forM [0..<nstates m]
               (\<lambda>i a.
                  bindE (getitem (logPi m) (int i)) (\<lambda>lp.
                  bindE (getitem o_t 0) (\<lambda>o0.
                    setitem2 a (int i) 0 (lp + log_emission_probability e m i o0))))
               (zeros2 (nstates m) (length o_t)) = Inr a
           \<and> well_shaped a (nstates m) (length o_t)
           \<and> (\<forall>i<nstates m. initialised e m o_t a i)"
proof -
  let ?n = "nstates m" and ?T = "length o_t"
  let ?I = "\<lambda>i a. well_shaped a ?n ?T \<and> (\<forall>i'<i. initialised e m o_t a i')"
  have T: "0 < ?T" using ne by simp
  have "\<exists>a. forM [0..<?n]
               (\<lambda>i a.
                  bindE (getitem (logPi m) (int i)) (\<lambda>lp.
                  bindE (getitem o_t 0) (\<lambda>o0.
                    setitem2 a (int i) 0 (lp + log_emission_probability e m i o0))))
               (zeros2 ?n ?T) = Inr a \<and> ?I ?n a"
  proof (rule forM_upt_total [where I = ?I])
    show "0 \<le> ?n" by simp
    show "?I 0 (zeros2 ?n ?T)" by (simp add: well_shaped_zeros2)
  next
    fix i a
    assume i: "i < ?n" and inv: "?I i a"
    let ?v = "logPi m ! i + log_emission_probability e m i (o_t ! 0)"
    from setitem2_nat [of a ?n ?T i 0 ?v] inv i T
    obtain a' where a': "setitem2 a (int i) 0 ?v = Inr a'" "well_shaped a' ?n ?T"
      "elem a' i 0 = ?v"
      "\<forall>i' t'. i' < ?n \<and> (i' \<noteq> i \<or> t' \<noteq> 0) \<longrightarrow> elem a' i' t' = elem a i' t'"
      by auto
    have "\<forall>i'<Suc i. initialised e m o_t a' i'"
    proof (intro allI impI)
      fix i' assume "i' < Suc i"
      then consider "i' = i" | "i' < i" by linarith
      then show "initialised e m o_t a' i'"
      proof cases
        case 1
        then show ?thesis using a'(3) by (simp add: initialised_def)
      next
        case 2
        then have "elem a' i' 0 = elem a i' 0" using a'(4) i by auto
        then show ?thesis using inv 2 by (simp add: initialised_def)
      qed
    qed
    moreover have "bindE (getitem (logPi m) (int i)) (\<lambda>lp.
                  bindE (getitem o_t 0) (\<lambda>o0.
                    setitem2 a (int i) 0 (lp + log_emission_probability e m i o0))) = Inr a'"
      using i lp ne a'(1) by simp
    ultimately show "\<exists>s'. bindE (getitem (logPi m) (int i)) (\<lambda>lp.
                  bindE (getitem o_t 0) (\<lambda>o0.
                    setitem2 a (int i) 0 (lp + log_emission_probability e m i o0))) = Inr s'
        \<and> ?I (Suc i) s'"
      using a'(2) by blast
  qed
  then show ?thesis by blast
qed

lemma forward_step:
  assumes wf: "hmm_wf m" and t: "0 < t" "t < length o_t" and j: "j < nstates m"
    and ws: "well_shaped a (nstates m) (length o_t)"
  shows "\<exists>a'. bindE (column a (int t - 1)) (\<lambda>prev.
                     bindE (column (logTij m) (int j)) (\<lambda>lt.
                     bindE (np_add prev lt) (\<lambda>x.
                     bindE (logsumexp x) (\<lambda>l.
                     bindE (getitem o_t (int t)) (\<lambda>ot.
                       setitem2 a (int j) (int t)
                         (l + log_emission_probability e m j ot)))))) = Inr a'
          \<and> well_shaped a' (nstates m) (length o_t)
          \<and> recursed e m o_t a' j t
          \<and> (\<forall>i' t'. i' < nstates m \<and> (i' \<noteq> j \<or> t' \<noteq> t) \<longrightarrow> elem a' i' t' = elem a i' t')"
proof -
  let ?n = "nstates m" and ?T = "length o_t"
  let ?x = "map (\<lambda>k. elem a k (t - 1) + elem (logTij m) k j) [0..<?n]"
  have wl: "well_shaped (logTij m) ?n ?n" using wf by (simp add: hmm_wf_def)
  have c1: "column a (int t - 1) = Inr (map (\<lambda>r. r ! (t - 1)) (rows a))"
    using t ws by (simp add: column_pred well_shaped_def)
  have c2: "column (logTij m) (int j) = Inr (map (\<lambda>r. r ! j) (rows (logTij m)))"
    using j wl by (simp add: column_nat well_shaped_def)
  have c3: "np_add (map (\<lambda>r. r ! (t - 1)) (rows a)) (map (\<lambda>r. r ! j) (rows (logTij m))) = Inr ?x"
    by (rule map2_columns [OF ws wl])
  have "?x \<noteq> []" using j by auto
  then obtain l where l: "logsumexp ?x = Inr l" using logsumexp_nonempty by blast
  let ?v = "l + log_emission_probability e m j (o_t ! t)"
  from setitem2_nat [OF ws j t(2), of ?v]
  obtain a' where a': "setitem2 a (int j) (int t) ?v = Inr a'" "well_shaped a' ?n ?T"
      "elem a' j t = ?v"
      "\<forall>i' t'. i' < ?n \<and> (i' \<noteq> j \<or> t' \<noteq> t) \<longrightarrow> elem a' i' t' = elem a i' t'"
    by auto
  have "t - 1 \<noteq> t" using t by simp
  then have "\<forall>k<?n. elem a' k (t - 1) = elem a k (t - 1)"
    using a'(4) by auto
  then have x: "map (\<lambda>k. elem a' k (t - 1) + elem (logTij m) k j) [0..<?n] = ?x"
    by simp
  have r: "recursed e m o_t a' j t"
    unfolding recursed_def x using l a'(3) by blast
  have "bindE (column a (int t - 1)) (\<lambda>prev.
                     bindE (column (logTij m) (int j)) (\<lambda>lt.
                     bindE (np_add prev lt) (\<lambda>x.
                     bindE (logsumexp x) (\<lambda>l.
                     bindE (getitem o_t (int t)) (\<lambda>ot.
                       setitem2 a (int j) (int t)
                         (l + log_emission_probability e m j ot)))))) = Inr a'"
    using c1 c2 c3 l t a'(1) by simp
  then show ?thesis using a'(2) r a'(4) by blast
qed


lemma recursed_cong:
  assumes "recursed e m o_t a j t"
    and "\<forall>k<nstates m. elem a' k (t - 1) = elem a k (t - 1)"
    and "elem a' j t = elem a j t"
  shows "recursed e m o_t a' j t"
proof -
  have x: "map (\<lambda>k. elem a' k (t - 1) + elem (logTij m) k j) [0..<nstates m]
      = map (\<lambda>k. elem a k (t - 1) + elem (logTij m) k j) [0..<nstates m]"
    using assms(2) by simp
  show ?thesis using assms(1) unfolding recursed_def x assms(3) .
qed

lemma forward_inner:
  assumes wf: "hmm_wf m" and t: "0 < t" "t < length o_t"
    and ws: "well_shaped a (nstates m) (length o_t)"
  shows "\<exists>a'. forM [0..<nstates m]
                  (\<lambda>j a.
                     bindE (column a (int t - 1)) (\<lambda>prev.
                     bindE (column (logTij m) (int j)) (\<lambda>lt.
                     bindE (np_add prev lt) (\<lambda>x.
                     bindE (logsumexp x) (\<lambda>l.
                     bindE (getitem o_t (int t)) (\<lambda>ot.
                       setitem2 a (int j) (int t)
                         (l + log_emission_probability e m j ot)))))))
                  a = Inr a'
          \<and> well_shaped a' (nstates m) (length o_t)
          \<and> (\<forall>j<nstates m. recursed e m o_t a' j t)
          \<and> (\<forall>i' t'. i' < nstates m \<and> t' \<noteq> t \<longrightarrow> elem a' i' t' = elem a i' t')"
proof -
  let ?n = "nstates m" and ?T = "length o_t"
  let ?I = "\<lambda>j a'. well_shaped a' ?n ?T \<and> (\<forall>j'<j. recursed e m o_t a' j' t)
             \<and> (\<forall>i' t'. i' < ?n \<and> t' \<noteq> t \<longrightarrow> elem a' i' t' = elem a i' t')"
  let ?body = "(\<lambda>j a.
                     bindE (column a (int t - 1)) (\<lambda>prev.
                     bindE (column (logTij m) (int j)) (\<lambda>lt.
                     bindE (np_add prev lt) (\<lambda>x.
                     bindE (logsumexp x) (\<lambda>l.
                     bindE (getitem o_t (int t)) (\<lambda>ot.
                       setitem2 a (int j) (int t)
                         (l + log_emission_probability e m j ot)))))))"
  have "\<exists>a'. forM [0..<?n] ?body a = Inr a' \<and> ?I ?n a'"
  proof (rule forM_upt_total [where I = ?I])
    show "0 \<le> ?n" by simp
    show "?I 0 a" using ws by simp
  next
    fix j b
    assume j: "j < ?n" and inv: "?I j b"
    from forward_step [OF wf t j, of b e] inv
    obtain b' where b': "?body j b = Inr b'" "well_shaped b' ?n ?T" "recursed e m o_t b' j t"
      "\<forall>i' t'. i' < ?n \<and> (i' \<noteq> j \<or> t' \<noteq> t) \<longrightarrow> elem b' i' t' = elem b i' t'"
      by blast
    have tt: "t - 1 \<noteq> t" using t by simp
    have r: "\<forall>j'<Suc j. recursed e m o_t b' j' t"
    proof (intro allI impI)
      fix j' assume "j' < Suc j"
      then consider "j' = j" | "j' < j" by linarith
      then show "recursed e m o_t b' j' t"
      proof cases
        case 1
        then show ?thesis using b'(3) by simp
      next
        case 2
        then have "recursed e m o_t b j' t" using inv by simp
        moreover have "\<forall>k<?n. elem b' k (t - 1) = elem b k (t - 1)" using b'(4) tt by simp
        moreover have "elem b' j' t = elem b j' t" using b'(4) 2 j by simp
        ultimately show ?thesis by (rule recursed_cong)
      qed
    qed
    have u: "\<forall>i' t'. i' < ?n \<and> t' \<noteq> t \<longrightarrow> elem b' i' t' = elem a i' t'"
      using b'(4) inv by simp
    show "\<exists>s'. ?body j b = Inr s' \<and> ?I (Suc j) s'"
      using b'(1,2) r u by blast
  qed
  then show ?thesis by blast
qed

lemma forward_part_total:
  assumes wf: "hmm_wf m" and ne: "o_t \<noteq> []"
  shows "\<exists>a. forward_part e m o_t = Inr a
          \<and> well_shaped a (nstates m) (length o_t)
          \<and> (\<forall>i<nstates m. initialised e m o_t a i)
          \<and> (\<forall>t j. 0 < t \<and> t < length o_t \<and> j < nstates m \<longrightarrow> recursed e m o_t a j t)"
proof -
  let ?n = "nstates m" and ?T = "length o_t"
  let ?inner = "\<lambda>t a. forM [0..<nstates m]
                  (\<lambda>j a.
                     bindE (column a (int t - 1)) (\<lambda>prev.
                     bindE (column (logTij m) (int j)) (\<lambda>lt.
                     bindE (np_add prev lt) (\<lambda>x.
                     bindE (logsumexp x) (\<lambda>l.
                     bindE (getitem o_t (int t)) (\<lambda>ot.
                       setitem2 a (int j) (int t)
                         (l + log_emission_probability e m j ot)))))))
                  a"
  let ?I = "\<lambda>t a. well_shaped a ?n ?T \<and> (\<forall>i<?n. initialised e m o_t a i)
             \<and> (\<forall>t' j. 0 < t' \<and> t' < t \<and> j < ?n \<longrightarrow> recursed e m o_t a j t')"
  have lp: "?n \<le> length (logPi m)" using wf by (simp add: hmm_wf_def)
  from forward_init [OF lp ne, of e]
  obtain a0 where a0: "forM [0..<?n]
               (\<lambda>i a.
                  bindE (getitem (logPi m) (int i)) (\<lambda>lp.
                  bindE (getitem o_t 0) (\<lambda>o0.
                    setitem2 a (int i) 0 (lp + log_emission_probability e m i o0))))
               (zeros2 ?n ?T) = Inr a0"
           "well_shaped a0 ?n ?T" "\<forall>i<?n. initialised e m o_t a0 i"
    by blast
  have "\<exists>a. forM [1..<?T] ?inner a0 = Inr a \<and> ?I ?T a"
  proof (rule forM_upt_total [where I = ?I])
    show "1 \<le> ?T" using ne by (simp add: Suc_le_eq)
    show "?I 1 a0" using a0 by simp
  next
    fix t b
    assume t: "1 \<le> t" "t < ?T" and inv: "?I t b"
    then have t0: "0 < t" by simp
    from forward_inner [OF wf t0 t(2), of b e] inv
    obtain b' where b': "?inner t b = Inr b'" "well_shaped b' ?n ?T"
      "\<forall>j<?n. recursed e m o_t b' j t"
      "\<forall>i' t'. i' < ?n \<and> t' \<noteq> t \<longrightarrow> elem b' i' t' = elem b i' t'"
      by blast
    have i: "\<forall>i<?n. initialised e m o_t b' i"
      using inv b'(4) t0 by (simp add: initialised_def)
    have r: "\<forall>t' j. 0 < t' \<and> t' < Suc t \<and> j < ?n \<longrightarrow> recursed e m o_t b' j t'"
    proof (intro allI impI)
      fix t' j assume h: "0 < t' \<and> t' < Suc t \<and> j < ?n"
      then consider "t' = t" | "t' < t" by linarith
      then show "recursed e m o_t b' j t'"
      proof cases
        case 1
        then show ?thesis using b'(3) h by simp
      next
        case 2
        then have "recursed e m o_t b j t'" using inv h by simp
        moreover have "\<forall>k<?n. elem b' k (t' - 1) = elem b k (t' - 1)" using b'(4) 2 by simp
        moreover have "elem b' j t' = elem b j t'" using b'(4) 2 h by simp
        ultimately show ?thesis by (rule recursed_cong)
      qed
    qed
    show "\<exists>s'. ?inner t b = Inr s' \<and> ?I (Suc t) s'"
      using b'(1,2) i r by blast
  qed
  then obtain a where a: "forM [1..<?T] ?inner a0 = Inr a" "?I ?T a" by blast
  have "forward_part e m o_t = Inr a"
    using a0(1) a(1) by (simp add: forward_part_def Let_def)
  then show ?thesis using a(2) by blast
qed


lemma foldl_fmax_Fin: "foldl fmax (Fin x) (map Fin xs) = Fin (foldl max x xs)"
  by (induction xs arbitrary: x) simp_all

lemma foldl_max_Max: "foldl max (x::real) xs = Max (set (x # xs))"
proof (induction xs arbitrary: x)
  case Nil
  show ?case by simp
next
  case (Cons y ys)
  have "foldl max x (y # ys) = Max (set (max x y # ys))" using Cons.IH by simp
  also have "\<dots> = Max (set (x # y # ys))"
    by (cases ys) (simp_all add: max.assoc)
  finally show ?case .
qed

lemma amax_Fin: "rs \<noteq> [] \<Longrightarrow> amax (map Fin rs) = Inr (Fin (Max (set rs)))"
  by (cases rs) (simp_all add: amax_def foldl_fmax_Fin foldl_max_Max)

lemma foldl_fadd_Fin: "foldl (+) (Fin x) (map Fin xs) = Fin (x + sum_list xs)"
  by (induction xs arbitrary: x) (simp_all add: plus_float64_def add.assoc)

lemma np_sum_Fin: "np_sum (map Fin xs) = Fin (sum_list xs)"
  by (simp add: np_sum_def zero_float64_def foldl_fadd_Fin)

lemma sum_list_exp_nonneg: "0 \<le> (\<Sum>r\<leftarrow>rs. exp (f r :: real))"
  by (induction rs) simp_all

lemma sum_list_exp_pos: "rs \<noteq> [] \<Longrightarrow> 0 < (\<Sum>r\<leftarrow>rs. exp (f r :: real))"
proof (cases rs)
  case Nil
  assume "rs \<noteq> []"
  with Nil show ?thesis by simp
next
  case (Cons a as)
  have "0 < exp (f a) + (\<Sum>r\<leftarrow>as. exp (f r))"
    using sum_list_exp_nonneg [of f as] exp_gt_zero [of "f a"] by linarith
  with Cons show ?thesis by simp
qed

lemma logsumexp_Fin:
  assumes "rs \<noteq> []"
  shows "logsumexp (map Fin rs)
           = Inr (Fin (ln (\<Sum>r\<leftarrow>rs. exp (r - Max (set rs))) + Max (set rs)))"
proof -
  let ?M = "Max (set rs)"
  have m: "map fexp (map (\<lambda>x. x - Fin ?M) (map Fin rs)) = map Fin (map (\<lambda>r. exp (r - ?M)) rs)"
    by (simp add: minus_float64_def)
  have p: "0 < (\<Sum>r\<leftarrow>rs. exp (r - ?M))" using assms by (rule sum_list_exp_pos)
  show ?thesis
    using assms p by (simp add: logsumexp_def amax_Fin m np_sum_Fin plus_float64_def del: map_map)
qed

lemma logsumexp_Fin_exact:
  assumes "rs \<noteq> []"
  shows "ln (\<Sum>r\<leftarrow>rs. exp (r - M)) + M = ln (\<Sum>r\<leftarrow>rs. exp (r::real))"
proof -
  have "(\<Sum>r\<leftarrow>rs. exp (r - M)) = (\<Sum>r\<leftarrow>rs. exp r) / exp M"
    by (induction rs) (simp_all add: exp_diff add_divide_distrib)
  moreover have "0 < (\<Sum>r\<leftarrow>rs. exp r)" using assms by (rule sum_list_exp_pos)
  ultimately show ?thesis by (simp add: ln_div)
qed

lemma shifted_nonpos: "r \<in> set rs \<Longrightarrow> r - Max (set rs) \<le> (0::real)"
  by simp


lemma forward_part_single:
  assumes lp: "nstates m \<le> length (logPi m)"
  shows "forward_part e m [ob]
           = Inr \<lparr>shape0 = nstates m, shape1 = 1,
                  rows = map (\<lambda>i. [logPi m ! i + log_emission_probability e m i ob])
                           [0..<nstates m]\<rparr>"
proof -
  let ?n = "nstates m"
  from forward_init [OF lp, of "[ob]" e]
  obtain a where a: "forM [0..<?n]
               (\<lambda>i a.
                  bindE (getitem (logPi m) (int i)) (\<lambda>lp.
                  bindE (getitem [ob] 0) (\<lambda>o0.
                    setitem2 a (int i) 0 (lp + log_emission_probability e m i o0))))
               (zeros2 ?n (length [ob])) = Inr a"
           "well_shaped a ?n (length [ob])" "\<forall>i<?n. initialised e m [ob] a i"
    by blast
  have f: "forward_part e m [ob] = Inr a"
    using a(1) by (simp add: forward_part_def)
  have r: "rows a = map (\<lambda>i. [logPi m ! i + log_emission_probability e m i ob]) [0..<?n]"
  proof (rule nth_equalityI)
    show "length (rows a) = length (map (\<lambda>i. [logPi m ! i + log_emission_probability e m i ob]) [0..<?n])"
      using a(2) by (simp add: well_shaped_def)
  next
    fix i assume "i < length (rows a)"
    then have i: "i < ?n" using a(2) by (simp add: well_shaped_def)
    then have l: "length (rows a ! i) = 1" using a(2) by (simp add: well_shaped_def)
    have "rows a ! i ! 0 = logPi m ! i + log_emission_probability e m i ob"
      using a(3) i by (simp add: initialised_def elem_def)
    with l have "rows a ! i = [logPi m ! i + log_emission_probability e m i ob]"
      by (cases "rows a ! i") simp_all
    then show "rows a ! i = map (\<lambda>i. [logPi m ! i + log_emission_probability e m i ob]) [0..<?n] ! i"
      using i by simp
  qed
  have "a = \<lparr>shape0 = ?n, shape1 = 1, rows = rows a\<rparr>"
    using a(2) by (simp add: well_shaped_def)
  then show ?thesis using f r by simp
qed

lemma bindE_cong_Inr: "(\<And>x. m = Inr x \<Longrightarrow> f x = g x) \<Longrightarrow> bindE m f = bindE m g"
  by (cases m) simp_all

lemma backward_part_single:
  assumes "shape1 a = 1"
  shows "backward_part e m a 1 g =
     bindE (logsumexp (map (\<lambda>r. r ! 0) (rows a))) (\<lambda>l.
     bindE (choice e (nstates m) (exp_minus (map (\<lambda>r. r ! 0) (rows a)) l) (shd g)) (\<lambda>k.
       Inr ([k], stl g)))"
proof -
  have c: "column a 0 = Inr (map (\<lambda>r. r ! 0) (rows a))"
    using assms by (simp add: column_def)
  have s: "setitem [0::nat] 0 k = Inr [k]" for k
    by (simp add: setitem_def)
  show ?thesis
    by (simp add: backward_part_def c s)
qed

lemma py_index_nat_ge: "n \<le> i \<Longrightarrow> py_index (int i) n = Inl IndexError"
  by (simp add: py_index_def)

lemma setitem_nat: "i < length xs \<Longrightarrow> setitem xs (int i) v = Inr (xs[i := v])"
  by (simp add: setitem_def)

lemma getitem_succ: "Suc t < length xs \<Longrightarrow> getitem xs (int t + 1) = Inr (xs ! Suc t)"
  by (simp add: getitem_def)

lemma backward_step:
  assumes wf: "hmm_wf m" and ws: "well_shaped a (nstates m) T"
    and t: "Suc t < T" and len: "length s = T"
  shows "bindE (column a (int t)) (\<lambda>c.
             bindE (getitem s (int t + 1)) (\<lambda>nxt.
             bindE (column (logTij m) (int nxt)) (\<lambda>lt.
             bindE (np_add c lt) (\<lambda>log_p_i.
             bindE (logsumexp log_p_i) (\<lambda>l.
             let p_i = exp_minus log_p_i l in
             bindE (choice e (nstates m) p_i (shd g)) (\<lambda>k.
             bindE (setitem s (int t) k) (\<lambda>s_t.
               Inr (s_t, stl g))))))))
         = (if s ! Suc t < nstates m then
              bindE (logsumexp (step_log_p m a t (s ! Suc t))) (\<lambda>l.
              bindE (choice e (nstates m) (exp_minus (step_log_p m a t (s ! Suc t)) l) (shd g))
                (\<lambda>k. Inr (s[t := k], stl g)))
            else Inl IndexError)"
proof -
  let ?n = "nstates m"
  have wl: "well_shaped (logTij m) ?n ?n" using wf by (simp add: hmm_wf_def)
  have tT: "t < T" using t by simp
  have c1: "column a (int t) = Inr (map (\<lambda>r. r ! t) (rows a))"
    using tT ws by (simp add: column_nat well_shaped_def)
  have g1: "getitem s (int t + 1) = Inr (s ! Suc t)"
    using t len by (simp add: getitem_succ)
  show ?thesis
  proof (cases "s ! Suc t < ?n")
    case True
    have c2: "column (logTij m) (int (s ! Suc t)) = Inr (map (\<lambda>r. r ! (s ! Suc t)) (rows (logTij m)))"
      using True wl by (simp add: column_nat well_shaped_def)
    have c3: "np_add (map (\<lambda>r. r ! t) (rows a)) (map (\<lambda>r. r ! (s ! Suc t)) (rows (logTij m)))
                = Inr (step_log_p m a t (s ! Suc t))"
      unfolding step_log_p_def by (rule map2_columns [OF ws wl])
    have s1: "setitem s (int t) k = Inr (s[t := k])" for k
      using tT len by (simp add: setitem_nat)
    show ?thesis
      using True by (simp add: c1 g1 c2 c3 s1 Let_def)
  next
    case False
    then have "column (logTij m) (int (s ! Suc t)) = Inl IndexError"
      using wl by (simp add: column_def well_shaped_def py_index_nat_ge)
    then show ?thesis using False by (simp add: c1 g1)
  qed
qed

lemma backward_first:
  assumes ws: "well_shaped a (nstates m) T" and T: "0 < T"
  shows "backward_part e m a T g =
     bindE (logsumexp (last_log_p m a T)) (\<lambda>l.
     bindE (choice e (nstates m) (exp_minus (last_log_p m a T) l) (shd g)) (\<lambda>k.
        forM (rev [0..<T - 1])
          (\<lambda>t (s_t, g).
             bindE (column a (int t)) (\<lambda>c.
             bindE (getitem s_t (int t + 1)) (\<lambda>nxt.
             bindE (column (logTij m) (int nxt)) (\<lambda>lt.
             bindE (np_add c lt) (\<lambda>log_p_i.
             bindE (logsumexp log_p_i) (\<lambda>l.
             let p_i = exp_minus log_p_i l in
             bindE (choice e (nstates m) p_i (shd g)) (\<lambda>k.
             bindE (setitem s_t (int t) k) (\<lambda>s_t.
               Inr (s_t, stl g)))))))))
          ((replicate T 0)[T - 1 := k], stl g)))"
proof -
  have c: "column a (int T - 1) = Inr (last_log_p m a T)"
    using ws T column_elem [OF ws, of "T - 1"]
    by (simp add: column_pred well_shaped_def last_log_p_def)
  have s: "setitem (replicate T 0) (int T - 1) k = Inr ((replicate T (0::nat))[T - 1 := k])" for k
    using T by (simp add: setitem_def)
  show ?thesis
    by (simp add: backward_part_def c s Let_def)
qed


lemma bindE_assoc: "bindE (bindE m f) h = bindE m (\<lambda>x. bindE (f x) h)"
  by (cases m) simp_all

lemma backward_draw_length: "backward_draw e m a t s u = Inr s' \<Longrightarrow> length s' = length s"
  by (auto simp: backward_draw_def bindE_eq_Inr split: if_splits)

lemma forM_cong_inv:
  assumes "I s"
    and "\<And>x s. x \<in> set xs \<Longrightarrow> I s \<Longrightarrow> body x s = body' x s"
    and "\<And>x s s'. x \<in> set xs \<Longrightarrow> I s \<Longrightarrow> body' x s = Inr s' \<Longrightarrow> I s'"
  shows "forM xs body s = forM xs body' s"
  using assms
proof (induction xs arbitrary: s)
  case Nil
  show ?case by simp
next
  case (Cons x xs)
  have b: "body x s = body' x s" using Cons.prems by simp
  show ?case
  proof (cases "body' x s")
    case (Inl err)
    then show ?thesis using b by simp
  next
    case (Inr s1)
    then have "I s1" using Cons.prems(1) Cons.prems(3) [of x s s1] by simp
    then have "forM xs body s1 = forM xs body' s1"
    proof (rule Cons.IH)
      show "body y t = body' y t" if "y \<in> set xs" "I t" for y t
        using that Cons.prems(2) [of y t] by simp
      show "I t'" if "y \<in> set xs" "I t" "body' y t = Inr t'" for y t t'
        using that Cons.prems(3) [of y t t'] by simp
    qed
    then show ?thesis using b Inr by simp
  qed
qed

lemma backward_part_draws:
  fixes e :: "('o, 'p, 'u) env" and g :: "'u stream"
  assumes wf: "hmm_wf m" and ws: "well_shaped a (nstates m) T" and T: "0 < T"
  shows "backward_part e m a T g =
     bindE (logsumexp (last_log_p m a T)) (\<lambda>l.
     bindE (choice e (nstates m) (exp_minus (last_log_p m a T) l) (shd g)) (\<lambda>k.
        forM (rev [0..<T - 1])
          (\<lambda>t (s, g). bindE (backward_draw e m a t s (shd g)) (\<lambda>s'. Inr (s', stl g)))
          ((replicate T 0)[T - 1 := k], stl g)))"
proof -
  let ?body = "(\<lambda>t (s_t, g).
             bindE (column a (int t)) (\<lambda>c.
             bindE (getitem s_t (int t + 1)) (\<lambda>nxt.
             bindE (column (logTij m) (int nxt)) (\<lambda>lt.
             bindE (np_add c lt) (\<lambda>log_p_i.
             bindE (logsumexp log_p_i) (\<lambda>l.
             let p_i = exp_minus log_p_i l in
             bindE (choice e (nstates m) p_i (shd g)) (\<lambda>k.
             bindE (setitem s_t (int t) k) (\<lambda>s_t.
               Inr (s_t, stl g)))))))))"
  let ?body' = "(\<lambda>t (s, g). bindE (backward_draw e m a t s (shd g)) (\<lambda>s'. Inr (s', stl g)))"
  have eq: "forM (rev [0..<T - 1]) ?body (s, g') = forM (rev [0..<T - 1]) ?body' (s, g')"
    if "length s = T" for s :: "nat list" and g' :: "'u stream"
  proof (rule forM_cong_inv [where I = "\<lambda>(s, g). length s = T"])
    show "case (s, g') of (s, g) \<Rightarrow> length s = T" using that by simp
  next
    fix t and sg :: "nat list \<times> 'u stream"
    assume t: "t \<in> set (rev [0..<T - 1])" and i: "case sg of (s, g) \<Rightarrow> length s = T"
    obtain s1 g1 where sg: "sg = (s1, g1)" by (cases sg)
    have st: "Suc t < T" using t by auto
    have l: "length s1 = T" using i sg by simp
    show "?body t sg = ?body' t sg"
      unfolding sg prod.case backward_step [OF wf ws st l]
      by (simp add: backward_draw_def bindE_assoc)
  next
    fix t and sg sg' :: "nat list \<times> 'u stream"
    assume "case sg of (s, g) \<Rightarrow> length s = T" and "?body' t sg = Inr sg'"
    then show "case sg' of (s, g) \<Rightarrow> length s = T"
      by (cases sg; cases sg') (auto simp: bindE_eq_Inr dest: backward_draw_length)
  qed
  show ?thesis
    unfolding backward_first [OF ws T]
    by (intro bindE_cong_Inr eq) simp
qed


lemma forM_draws_generator:
  assumes "forM ts (\<lambda>t (s, g). bindE (D t s (shd g)) (\<lambda>s'. Inr (s', stl g))) (s, g) = Inr (s', g')"
  shows "g' = sdrop (length ts) g"
  using assms
proof (induction ts arbitrary: s g)
  case Nil
  then show ?case by simp
next
  case (Cons t ts)
  from Cons.prems obtain s1 where s1: "D t s (shd g) = Inr s1"
    and r: "forM ts (\<lambda>t (s, g). bindE (D t s (shd g)) (\<lambda>s'. Inr (s', stl g))) (s1, stl g)
              = Inr (s', g')"
    by (auto simp: bindE_eq_Inr)
  from Cons.IH [OF r] show ?case by simp
qed

lemma forM_draws_variates:
  assumes "stake (length ts) g = stake (length ts) g2"
  shows "map_sum id fst (forM ts (\<lambda>t (s, g). bindE (D t s (shd g)) (\<lambda>s'. Inr (s', stl g))) (s, g))
       = map_sum id fst (forM ts (\<lambda>t (s, g). bindE (D t s (shd g)) (\<lambda>s'. Inr (s', stl g))) (s, g2))"
  using assms
proof (induction ts arbitrary: s g g2)
  case Nil
  show ?case by simp
next
  case (Cons t ts)
  from Cons.prems have h: "shd g = shd g2" and tl: "stake (length ts) (stl g) = stake (length ts) (stl g2)"
    by simp_all
  show ?case
  proof (cases "D t s (shd g)")
    case (Inl err)
    then show ?thesis using h by simp
  next
    case (Inr s1)
    then show ?thesis using h Cons.IH [OF tl, of s1] by simp
  qed
qed

lemma forM_rev_upt_total:
  assumes "I n s"
    and step: "\<And>k s. k < n \<Longrightarrow> I (Suc k) s \<Longrightarrow> \<exists>s'. body k s = Inr s' \<and> I k s'"
  shows "\<exists>s'. forM (rev [0..<n]) body s = Inr s' \<and> I 0 s'"
  using assms
proof (induction n arbitrary: s)
  case 0
  then show ?case by simp
next
  case (Suc n)
  from Suc.prems(2) [of n s] Suc.prems(1) obtain s1 where s1: "body n s = Inr s1" "I n s1"
    by auto
  have "\<exists>s'. forM (rev [0..<n]) body s1 = Inr s' \<and> I 0 s'"
  proof (rule Suc.IH [OF s1(2)])
    show "\<exists>s'. body k t = Inr s' \<and> I k s'" if "k < n" "I (Suc k) t" for k t
      using that Suc.prems(2) [of k t] by simp
  qed
  then show ?case using s1(1) by simp
qed

lemma backward_part_partial:
  fixes e :: "('o, 'p, 'u) env" and g :: "'u stream"
  assumes wf: "hmm_wf m" and ws: "well_shaped a (nstates m) T" and T: "0 < T"
    and run: "backward_part e m a T g = Inr (s, g')"
  shows "length s = T \<and> g' = sdrop T g \<and> drawn_last e m a T g s
         \<and> (\<forall>t. Suc t < T \<longrightarrow> drawn_at e m a T g s t)"
proof -
  let ?B = "(\<lambda>t (s, g). bindE (backward_draw e m a t s (shd g)) (\<lambda>s'. Inr (s', stl g)))"
  from run [unfolded backward_part_draws [OF wf ws T]]
  obtain l k0 where l: "logsumexp (last_log_p m a T) = Inr l"
    and k0: "choice e (nstates m) (exp_minus (last_log_p m a T) l) (shd g) = Inr k0"
    and loop: "forM (rev [0..<T - 1]) ?B ((replicate T 0)[T - 1 := k0], stl g) = Inr (s, g')"
    by (auto simp: bindE_eq_Inr)
  let ?J = "\<lambda>k (sk, gk). length sk = T \<and> gk = sdrop (T - k) g \<and> sk ! (T - 1) = k0
              \<and> (\<forall>t. k \<le> t \<and> Suc t < T \<longrightarrow> drawn_at e m a T g sk t)"
  have "?J 0 (s, g')"
  proof (rule forM_rev_upt_partial [OF loop, where I = ?J])
    show "?J (T - 1) ((replicate T 0)[T - 1 := k0], stl g)"
      using T by (auto simp: sdrop_stl [symmetric])
  next
    fix k and sg sg' :: "nat list \<times> 'u stream"
    assume k: "k < T - 1" and inv: "?J (Suc k) sg" and b: "?B k sg = Inr sg'"
    obtain sk gk where sg: "sg = (sk, gk)" by (cases sg)
    obtain sk' gk' where sg': "sg' = (sk', gk')" by (cases sg')
    from inv sg have len: "length sk = T" and gk: "gk = sdrop (T - Suc k) g"
      and last: "sk ! (T - 1) = k0"
      and prev: "\<forall>t. Suc k \<le> t \<and> Suc t < T \<longrightarrow> drawn_at e m a T g sk t"
      by auto
    from b sg sg' have d: "backward_draw e m a k sk (shd gk) = Inr sk'" and gk': "gk' = stl gk"
      by (auto simp: bindE_eq_Inr)
    from d obtain l' kk where nx: "sk ! Suc k < nstates m"
      and l': "logsumexp (step_log_p m a k (sk ! Suc k)) = Inr l'"
      and kk: "choice e (nstates m) (exp_minus (step_log_p m a k (sk ! Suc k)) l') (shd gk) = Inr kk"
      and sk': "sk' = sk[k := kk]"
      by (auto simp: backward_draw_def bindE_eq_Inr split: if_splits)
    have shd: "shd gk = g !! (T - 1 - k)" using gk by simp
    have g2: "gk' = sdrop (T - k) g"
      using gk' gk k by (simp add: Suc_diff_Suc)
    have kT: "k < T" "Suc k < T" using k by simp_all
    have here: "drawn_at e m a T g sk' k"
      unfolding drawn_at_def using l' kk sk' shd len kT by auto
    have later: "drawn_at e m a T g sk' t" if "Suc k \<le> t" "Suc t < T" for t
    proof -
      have "drawn_at e m a T g sk t" using prev that by simp
      moreover have "sk' ! t = sk ! t" "sk' ! Suc t = sk ! Suc t" using sk' that by simp_all
      ultimately show ?thesis by (simp add: drawn_at_def)
    qed
    have all: "\<forall>t. k \<le> t \<and> Suc t < T \<longrightarrow> drawn_at e m a T g sk' t"
    proof (intro allI impI)
      fix t assume "k \<le> t \<and> Suc t < T"
      then consider "t = k" | "Suc k \<le> t" "Suc t < T" by linarith
      then show "drawn_at e m a T g sk' t" using here later by cases simp_all
    qed
    have "sk' ! (T - 1) = k0" using sk' last k by simp
    then show "?J k sg'" using sg' sk' len g2 all by simp
  qed
  then have len: "length s = T" and g': "g' = sdrop T g" and last: "s ! (T - 1) = k0"
    and all: "\<forall>t. Suc t < T \<longrightarrow> drawn_at e m a T g s t"
    by auto
  have "drawn_last e m a T g s"
    unfolding drawn_last_def using l k0 last by simp
  then show ?thesis using len g' all by simp
qed


lemma last_log_p_nonempty: "0 < nstates m \<Longrightarrow> last_log_p m a T \<noteq> []"
  by (simp add: last_log_p_def)

lemma step_log_p_nonempty: "0 < nstates m \<Longrightarrow> step_log_p m a t k \<noteq> []"
  by (simp add: step_log_p_def)

lemma backward_part_total:
  fixes e :: "('o, 'p, 'u) env" and g :: "'u stream"
  assumes wf: "hmm_wf m" and ws: "well_shaped a (nstates m) T" and T: "0 < T"
    and ch: "\<forall>p u. \<exists>k<nstates m. choice e (nstates m) p u = Inr k"
  shows "\<exists>s g'. backward_part e m a T g = Inr (s, g')"
proof -
  let ?n = "nstates m"
  let ?B = "(\<lambda>t (s, g). bindE (backward_draw e m a t s (shd g)) (\<lambda>s'. Inr (s', stl g)))"
  have n: "0 < ?n" using wf by (simp add: hmm_wf_def)
  obtain l where l: "logsumexp (last_log_p m a T) = Inr l"
    using logsumexp_nonempty [OF last_log_p_nonempty [OF n]] by blast
  obtain k0 where k0: "k0 < ?n" "choice e ?n (exp_minus (last_log_p m a T) l) (shd g) = Inr k0"
    using ch by blast
  let ?I = "\<lambda>k (sk, gk :: 'u stream). length sk = T \<and> (\<forall>t. k \<le> t \<and> t < T \<longrightarrow> sk ! t < ?n)"
  have "\<exists>sg. forM (rev [0..<T - 1]) ?B ((replicate T 0)[T - 1 := k0], stl g) = Inr sg \<and> ?I 0 sg"
  proof (rule forM_rev_upt_total [where I = ?I])
    show "?I (T - 1) ((replicate T 0)[T - 1 := k0], stl g)"
    proof -
      have "((replicate T 0)[T - 1 := k0]) ! t < ?n" if "T - 1 \<le> t" "t < T" for t
      proof -
        have "t = T - 1" using that by linarith
        then show ?thesis using k0(1) T by simp
      qed
      then show ?thesis by simp
    qed
  next
    fix k and sg :: "nat list \<times> 'u stream"
    assume k: "k < T - 1" and inv: "?I (Suc k) sg"
    obtain sk gk where sg: "sg = (sk, gk)" by (cases sg)
    from inv sg have len: "length sk = T" and rng: "\<forall>t. Suc k \<le> t \<and> t < T \<longrightarrow> sk ! t < ?n"
      by auto
    have nx: "sk ! Suc k < ?n" using rng k by simp
    obtain l' where l': "logsumexp (step_log_p m a k (sk ! Suc k)) = Inr l'"
      using logsumexp_nonempty [OF step_log_p_nonempty [OF n]] by blast
    obtain kk where kk: "kk < ?n"
      "choice e ?n (exp_minus (step_log_p m a k (sk ! Suc k)) l') (shd gk) = Inr kk"
      using ch by blast
    have b: "?B k sg = Inr (sk[k := kk], stl gk)"
      using sg nx l' kk(2) by (simp add: backward_draw_def)
    have "(sk[k := kk]) ! t < ?n" if "k \<le> t" "t < T" for t
    proof (cases "t = k")
      case True
      then show ?thesis using kk(1) len that by simp
    next
      case False
      then have "Suc k \<le> t" using that by simp
      then show ?thesis using rng that False by simp
    qed
    then have "?I k (sk[k := kk], stl gk)" using len by simp
    then show "\<exists>s'. ?B k sg = Inr s' \<and> ?I k s'" using b by blast
  qed
  then obtain sg where "forM (rev [0..<T - 1]) ?B ((replicate T 0)[T - 1 := k0], stl g) = Inr sg"
    by blast
  then have "backward_part e m a T g = Inr sg"
    unfolding backward_part_draws [OF wf ws T] using l k0(2) by simp
  then show ?thesis by (cases sg) auto
qed

lemma forM_invariant_partial:
  assumes "forM xs body s = Inr s'" and "I s"
    and "\<And>x s s'. x \<in> set xs \<Longrightarrow> I s \<Longrightarrow> body x s = Inr s' \<Longrightarrow> I s'"
  shows "I s'"
  using assms
proof (induction xs arbitrary: s)
  case Nil
  then show ?case by simp
next
  case (Cons x xs)
  from Cons.prems(1) obtain s1 where s1: "body x s = Inr s1" "forM xs body s1 = Inr s'"
    by (auto simp: bindE_eq_Inr)
  have "I s1" using Cons.prems(3) [of x s s1] Cons.prems(2) s1(1) by simp
  show ?case
  proof (rule Cons.IH [OF s1(2) \<open>I s1\<close>])
    show "I t'" if "y \<in> set xs" "I t" "body y t = Inr t'" for y t t'
      using that Cons.prems(3) [of y t t'] by simp
  qed
qed

lemma setitem2_shape:
  "setitem2 a i t v = Inr a' \<Longrightarrow> shape0 a' = shape0 a \<and> shape1 a' = shape1 a"
  by (auto simp: setitem2_def bindE_eq_Inr)

lemma forward_part_shape:
  assumes "forward_part e m o_t = Inr a"
  shows "shape1 a = length o_t"
proof -
  let ?I = "\<lambda>a :: float64 ndarray2. shape1 a = length o_t"
  from assms obtain a0 where a0: "forM (py_range (int (nstates m)))
               (\<lambda>i a.
                  bindE (getitem (logPi m) (int i)) (\<lambda>lp.
                  bindE (getitem o_t 0) (\<lambda>o0.
                    setitem2 a (int i) 0 (lp + log_emission_probability e m i o0))))
               (zeros2 (nstates m) (length o_t)) = Inr a0"
    and a: "forM [1..<length o_t]
             (\<lambda>t a.
                forM (py_range (int (nstates m)))
                  (\<lambda>j a.
                     bindE (column a (int t - 1)) (\<lambda>prev.
                     bindE (column (logTij m) (int j)) (\<lambda>lt.
                     bindE (np_add prev lt) (\<lambda>x.
                     bindE (logsumexp x) (\<lambda>l.
                     bindE (getitem o_t (int t)) (\<lambda>ot.
                       setitem2 a (int j) (int t)
                         (l + log_emission_probability e m j ot)))))))
                  a)
             a0 = Inr a"
    by (auto simp: forward_part_def Let_def bindE_eq_Inr)
  have "?I a0"
  proof (rule forM_invariant_partial [OF a0, where I = ?I])
    show "?I (zeros2 (nstates m) (length o_t))" by (simp add: zeros2_def)
  next
    fix i and b b' :: "float64 ndarray2"
    assume "?I b" and "bindE (getitem (logPi m) (int i)) (\<lambda>lp.
                  bindE (getitem o_t 0) (\<lambda>o0.
                    setitem2 b (int i) 0 (lp + log_emission_probability e m i o0))) = Inr b'"
    then show "?I b'" by (auto simp: bindE_eq_Inr dest: setitem2_shape)
  qed
  show "?I a"
  proof (rule forM_invariant_partial [OF a, where I = ?I])
    show "?I a0" by fact
  next
    fix t and b b' :: "float64 ndarray2"
    assume b: "?I b" and r: "forM (py_range (int (nstates m)))
                  (\<lambda>j a.
                     bindE (column a (int t - 1)) (\<lambda>prev.
                     bindE (column (logTij m) (int j)) (\<lambda>lt.
                     bindE (np_add prev lt) (\<lambda>x.
                     bindE (logsumexp x) (\<lambda>l.
                     bindE (getitem o_t (int t)) (\<lambda>ot.
                       setitem2 a (int j) (int t)
                         (l + log_emission_probability e m j ot)))))))
                  b = Inr b'"
    show "?I b'"
    proof (rule forM_invariant_partial [OF r, where I = ?I])
      show "?I b" by fact
    next
      fix j and c c' :: "float64 ndarray2"
      assume "?I c" and "bindE (column c (int t - 1)) (\<lambda>prev.
                     bindE (column (logTij m) (int j)) (\<lambda>lt.
                     bindE (np_add prev lt) (\<lambda>x.
                     bindE (logsumexp x) (\<lambda>l.
                     bindE (getitem o_t (int t)) (\<lambda>ot.
                       setitem2 c (int j) (int t)
                         (l + log_emission_probability e m j ot)))))) = Inr c'"
      then show "?I c'" by (auto simp: bindE_eq_Inr dest: setitem2_shape)
    qed
  qed
qed

lemma backward_part_raw_draws:
  "backward_part e m a T g =
     bindE (column a (int T - 1)) (\<lambda>log_p_i.
      bindE (column a (int T - 1)) (\<lambda>last_column.
      bindE (logsumexp last_column) (\<lambda>l.
      bindE (choice e (nstates m) (exp_minus log_p_i l) (shd g)) (\<lambda>k.
      bindE (setitem (replicate T 0) (int T - 1) k) (\<lambda>s_t.
        forM (rev [0..<T - 1])
          (\<lambda>t (s, g).
             bindE (bindE (column a (int t)) (\<lambda>c.
                    bindE (getitem s (int t + 1)) (\<lambda>nxt.
                    bindE (column (logTij m) (int nxt)) (\<lambda>lt.
                    bindE (np_add c lt) (\<lambda>log_p_i.
                    bindE (logsumexp log_p_i) (\<lambda>l.
                    bindE (choice e (nstates m) (exp_minus log_p_i l) (shd g)) (\<lambda>k.
                      setitem s (int t) k)))))))
               (\<lambda>s'. Inr (s', stl g)))
          (s_t, stl g))))))"
  by (simp add: backward_part_def Let_def bindE_assoc)


lemma map_sum_bindE: "map_sum id f (bindE m h) = bindE m (\<lambda>x. map_sum id f (h x))"
  by (cases m) simp_all

lemma stake_pos:
  assumes "0 < T" and "stake T g = stake T g2"
  shows "shd g = shd g2 \<and> stake (T - 1) (stl g) = stake (T - 1) (stl g2)"
proof -
  obtain T' where T': "T = Suc T'" using assms(1) by (cases T) simp_all
  show ?thesis using assms(2) unfolding T' by simp
qed

lemma backward_part_variates:
  assumes T: "0 < T" and v: "stake T g = stake T g2"
  shows "map_sum id fst (backward_part e m a T g) = map_sum id fst (backward_part e m a T g2)"
proof -
  from stake_pos [OF T v]
  have h: "shd g = shd g2" and t: "stake (length (rev [0..<T - 1])) (stl g)
                                   = stake (length (rev [0..<T - 1])) (stl g2)"
    by simp_all
  show ?thesis
    unfolding backward_part_raw_draws map_sum_bindE h
    by (intro bindE_cong_Inr forM_draws_variates [OF t])
qed

lemma backward_part_generator:
  assumes T: "0 < T" and r: "backward_part e m a T g = Inr (s, g')"
  shows "g' = sdrop T g"
proof -
  from r [unfolded backward_part_raw_draws]
  obtain s0 where "forM (rev [0..<T - 1])
          (\<lambda>t (s, g).
             bindE (bindE (column a (int t)) (\<lambda>c.
                    bindE (getitem s (int t + 1)) (\<lambda>nxt.
                    bindE (column (logTij m) (int nxt)) (\<lambda>lt.
                    bindE (np_add c lt) (\<lambda>log_p_i.
                    bindE (logsumexp log_p_i) (\<lambda>l.
                    bindE (choice e (nstates m) (exp_minus log_p_i l) (shd g)) (\<lambda>k.
                      setitem s (int t) k)))))))
               (\<lambda>s'. Inr (s', stl g)))
          (s0, stl g) = Inr (s, g')"
    by (auto simp: bindE_eq_Inr)
  from forM_draws_generator [OF this] have "g' = sdrop (T - 1) (stl g)" by simp
  also have "\<dots> = sdrop (Suc (T - 1)) g" by simp
  finally show ?thesis using T by simp
qed

lemma getitem_Inl: "getitem xs i = Inl err \<Longrightarrow> err = IndexError"
  by (auto simp: getitem_def py_index_def bindE_eq_Inl split: if_splits)

lemma forward_part_empty:
  assumes "forward_part e m [] = Inl err"
  shows "err = IndexError"
proof (cases "nstates m")
  case 0
  then show ?thesis using assms by (simp add: forward_part_def py_range_def)
next
  case (Suc n)
  have g: "getitem ([] :: 'a list) 0 = Inl IndexError"
    by (simp add: getitem_def py_index_def)
  have b: "bindE (getitem (logPi m) (int i)) (\<lambda>lp.
                  bindE (getitem ([] :: 'a list) 0) (\<lambda>o0.
                    setitem2 a (int i) 0 (lp + log_emission_probability e m i o0)))
           = Inl IndexError" for i a
    by (cases "getitem (logPi m) (int i)") (auto simp: g dest: getitem_Inl)
  have "[0..<Suc n] = 0 # [1..<Suc n]" by (simp add: upt_conv_Cons)
  then have "forward_part e m [] = Inl IndexError"
    unfolding forward_part_def Let_def py_range_int Suc by (simp add: b)
  then show ?thesis using assms by simp
qed

lemma sampleHiddenStateTrajectory_empty:
  "sampleHiddenStateTrajectory e self [] w = Inl IndexError"
proof (cases "forward_part e (deref w (model self)) []")
  case (Inl err)
  then show ?thesis
    using forward_part_empty [OF Inl] by (simp add: sampleHiddenStateTrajectory_def)
next
  case (Inr a)
  then have "shape1 a = 0" using forward_part_shape [of e _ "[]" a] by simp
  then have "backward_part e (deref w (model self)) a 0 (np_random w) = Inl IndexError"
    by (simp add: backward_part_def column_def py_index_def)
  then show ?thesis using Inr by (simp add: sampleHiddenStateTrajectory_def)
qed

lemma sampleHiddenStateTrajectory_variates:
  assumes m: "deref w (model self) = deref w2 (model self)"
    and v: "stake (length o_t) (np_random w) = stake (length o_t) (np_random w2)"
  shows "map_sum id fst (sampleHiddenStateTrajectory e self o_t w)
       = map_sum id fst (sampleHiddenStateTrajectory e self o_t w2)"
proof (cases "o_t = []")
  case True
  then show ?thesis by (simp add: sampleHiddenStateTrajectory_empty)
next
  case False
  then have T: "0 < length o_t" by simp
  have f: "map_sum id fst (bindE r (\<lambda>(s_t, g). Inr (s_t, w\<lparr>np_random := g\<rparr>)))
         = map_sum id fst r" for r :: "error + nat list \<times> 'b stream" and w :: "('a, 'b) world"
    by (cases r) auto
  show ?thesis
  proof (cases "forward_part e (deref w2 (model self)) o_t")
    case (Inl err)
    then show ?thesis by (simp add: sampleHiddenStateTrajectory_def m)
  next
    case (Inr a)
    then show ?thesis
      using backward_part_variates [OF T v, of e "deref w2 (model self)" a]
      by (simp add: sampleHiddenStateTrajectory_def m f)
  qed
qed

lemma sampleHiddenStateTrajectory_generator:
  assumes "sampleHiddenStateTrajectory e self o_t w = Inr (s, w')"
  shows "w' = w\<lparr>np_random := sdrop (length o_t) (np_random w)\<rparr>"
proof -
  have ne: "o_t \<noteq> []" using assms by (auto simp: sampleHiddenStateTrajectory_empty)
  from assms obtain a g where "backward_part e (deref w (model self)) a (length o_t) (np_random w)
                               = Inr (s, g)" and w': "w' = w\<lparr>np_random := g\<rparr>"
    by (auto simp: sampleHiddenStateTrajectory_def Let_def bindE_eq_Inr)
  from backward_part_generator [OF _ this(1)] ne w' show ?thesis by simp
qed


lemma foldl_fmax_NInf: "foldl fmax NInf (replicate k NInf) = NInf"
  by (induction k) simp_all

lemma foldl_fadd_zero: "foldl fadd (Fin 0) (replicate k (Fin 0)) = Fin 0"
  by (induction k) simp_all

lemma logsumexp_all_NInf: "0 < n \<Longrightarrow> logsumexp (replicate n NInf) = Inr NInf"
  by (cases n)
     (simp_all add: logsumexp_def amax_def foldl_fmax_NInf np_sum_def zero_float64_def
       plus_float64_def minus_float64_def foldl_fadd_zero)

lemma exp_minus_all_NInf: "exp_minus (replicate n NInf) NInf = replicate n NaN"
  by (simp add: exp_minus_def minus_float64_def)

lemma sampleHiddenStateTrajectory_wf:
  fixes e :: "('o, 'p, 'u) env" and w :: "('p, 'u) world"
  assumes wf: "hmm_wf (deref w (model self))" and ne: "o_t \<noteq> []"
  shows "\<exists>a l. forward_part e (deref w (model self)) o_t = Inr a
           \<and> well_shaped a (nstates (deref w (model self))) (length o_t)
           \<and> logsumexp (last_log_p (deref w (model self)) a (length o_t)) = Inr l
           \<and> sampleHiddenStateTrajectory e self o_t w
               = bindE (backward_part e (deref w (model self)) a (length o_t) (np_random w))
                   (\<lambda>(s_t, g). Inr (s_t, w\<lparr>np_random := g\<rparr>))"
proof -
  let ?m = "deref w (model self)"
  from forward_part_total [OF wf ne, of e]
  obtain a where a: "forward_part e ?m o_t = Inr a" "well_shaped a (nstates ?m) (length o_t)"
    by blast
  have n: "0 < nstates ?m" using wf by (simp add: hmm_wf_def)
  obtain l where l: "logsumexp (last_log_p ?m a (length o_t)) = Inr l"
    using logsumexp_nonempty [OF last_log_p_nonempty [OF n]] by blast
  have "sampleHiddenStateTrajectory e self o_t w
               = bindE (backward_part e ?m a (length o_t) (np_random w))
                   (\<lambda>(s_t, g). Inr (s_t, w\<lparr>np_random := g\<rparr>))"
    using a(1) by (simp add: sampleHiddenStateTrajectory_def)
  then show ?thesis using a l by blast
qed

lemma py_range_pos: "0 < n \<Longrightarrow> py_range n = 0 # [1..<nat n]"
  by (simp add: py_range_def upt_conv_Cons)

lemma py_range_nonpos: "n \<le> 0 \<Longrightarrow> py_range n = []"
  by (simp add: py_range_def)

lemma update_non_reversible:
  assumes "\<not> reversible self"
  shows "update e self w =
    (case updateHiddenStateTrajectories e self w of Inl err \<Rightarrow> Inl err
     | Inr w' \<Rightarrow> Inl NonReversibleNotImplemented)"
  using assms
  by (simp add: update_def updateEmissionProbabilities_def updateTransitionMatrix_def Let_def
      split: sum.splits prod.splits)

lemma only_live_changed_refl: "only_live_changed self w w"
  by (simp add: only_live_changed_def)

lemma only_live_changed_trans:
  "only_live_changed self w w1 \<Longrightarrow> only_live_changed self w1 w2 \<Longrightarrow> only_live_changed self w w2"
  by (simp add: only_live_changed_def)

lemma only_live_changed_wf:
  "only_live_changed self w w' \<Longrightarrow> wf_world self w \<Longrightarrow> wf_world self w'"
  by (simp add: only_live_changed_def wf_world_def)

lemma only_live_changed_separate:
  "only_live_changed self w w' \<Longrightarrow> separate self w a \<Longrightarrow> separate self w' a"
  by (simp add: only_live_changed_def separate_def)

lemma only_live_changed_deref:
  "only_live_changed self w w' \<Longrightarrow> separate self w a \<Longrightarrow> deref w' a = deref w a"
  by (simp add: only_live_changed_def separate_def deref_def)

lemma set_model_live:
  assumes "\<And>m. output_model (f m) = output_model m"
  shows "only_live_changed self w (set_model (model self) f w)"
  using assms
  by (cases "model self < length (hmm_objects w)")
     (simp_all add: only_live_changed_def set_model_def list_update_beyond)

lemma np_random_live: "only_live_changed self w (w\<lparr>np_random := g\<rparr>)"
  by (simp add: only_live_changed_def)

lemma output_live:
  "only_live_changed self w
     (w\<lparr>output_model_objects :=
          (output_model_objects w)[output_model (hmm_objects w ! model self) := om],
        np_random := g\<rparr>)"
  by (simp add: only_live_changed_def)

lemma output_model_append_trajectory [simp]:
  "output_model (append_trajectory s m) = output_model m"
  by (simp add: append_trajectory_def split: pyattr.splits)

lemma sampleHiddenStateTrajectory_world:
  "sampleHiddenStateTrajectory e self o_t w = Inr (s, w') \<Longrightarrow> \<exists>g. w' = w\<lparr>np_random := g\<rparr>"
  by (auto simp: sampleHiddenStateTrajectory_def Let_def bindE_eq_Inr)

lemma updateHiddenStateTrajectories_live:
  assumes "updateHiddenStateTrajectories e self w = Inr w'"
  shows "only_live_changed self w w'"
proof (rule forM_invariant_partial
    [OF assms [unfolded updateHiddenStateTrajectories_def], where I = "only_live_changed self w"])
  show "only_live_changed self w
          (set_model (model self) (\<lambda>m. m\<lparr>hidden_state_trajectories := Val []\<rparr>) w)"
    by (rule set_model_live) simp
next
  fix i w1 w2
  assume i: "only_live_changed self w w1"
    and b: "bindE (getitem (observations self) (int i)) (\<lambda>o_t.
          bindE (sampleHiddenStateTrajectory e self o_t w1) (\<lambda>(hidden_state_trajectory, w).
            Inr (set_model (model self) (append_trajectory hidden_state_trajectory) w))) = Inr w2"
  from b obtain o_t s w1' where r: "sampleHiddenStateTrajectory e self o_t w1 = Inr (s, w1')"
    and w2: "w2 = set_model (model self) (append_trajectory s) w1'"
    by (auto simp: bindE_eq_Inr)
  from sampleHiddenStateTrajectory_world [OF r] obtain g where "w1' = w1\<lparr>np_random := g\<rparr>" ..
  then have "only_live_changed self w1 w1'" by (simp add: np_random_live)
  moreover have "only_live_changed self w1' w2"
    unfolding w2 by (rule set_model_live) simp
  ultimately show "only_live_changed self w w2"
    using i by (blast intro: only_live_changed_trans)
qed

lemma updateEmissionProbabilities_live:
  assumes "updateEmissionProbabilities e self w = Inr w'"
  shows "only_live_changed self w w'"
  using assms output_live [of self w]
  by (auto simp: updateEmissionProbabilities_def Let_def split: prod.splits)

lemma updateTransitionMatrix_live:
  assumes "updateTransitionMatrix e self w = Inr w'"
  shows "only_live_changed self w w'"
proof -
  from assms obtain T' g where
    w': "w' = set_model (model self) (\<lambda>m. m\<lparr>Tij := T'\<rparr>) (w\<lparr>np_random := g\<rparr>)"
    by (auto simp: updateTransitionMatrix_def Let_def split: if_splits prod.splits)
  have "only_live_changed self (w\<lparr>np_random := g\<rparr>) w'"
    unfolding w' by (rule set_model_live) simp
  then show ?thesis
    using np_random_live [of self w g] by (blast intro: only_live_changed_trans)
qed

lemma update_live:
  assumes "update e self w = Inr w'"
  shows "only_live_changed self w w'"
proof -
  from assms obtain w1 w2 where "updateHiddenStateTrajectories e self w = Inr w1"
    "updateEmissionProbabilities e self w1 = Inr w2" "updateTransitionMatrix e self w2 = Inr w'"
    by (auto simp: update_def bindE_eq_Inr)
  then show ?thesis
    by (blast intro: only_live_changed_trans updateHiddenStateTrajectories_live
        updateEmissionProbabilities_live updateTransitionMatrix_live)
qed

lemma sweeps_live:
  assumes "sweeps e self k w = Inr w'"
  shows "only_live_changed self w w'"
proof (rule forM_invariant_partial [OF assms [unfolded sweeps_def],
      where I = "only_live_changed self w"])
  show "only_live_changed self w w" by (rule only_live_changed_refl)
next
  fix x w1 w2
  assume "only_live_changed self w w1" "update e self w1 = Inr w2"
  then show "only_live_changed self w w2"
    by (blast intro: only_live_changed_trans update_live)
qed

lemma bindE_rel:
  assumes "rel_sum (=) R m m2" and "\<And>x y. R x y \<Longrightarrow> rel_sum (=) S (f x) (f2 y)"
  shows "rel_sum (=) S (bindE m f) (bindE m2 f2)"
  using assms by (cases m; cases m2) simp_all

lemma forM_rel:
  assumes "R s s2"
    and "\<And>x s s2. x \<in> set xs \<Longrightarrow> R s s2 \<Longrightarrow> rel_sum (=) R (body x s) (body2 x s2)"
  shows "rel_sum (=) R (forM xs body s) (forM xs body2 s2)"
  using assms
proof (induction xs arbitrary: s s2)
  case Nil
  then show ?case by simp
next
  case (Cons x xs)
  have "rel_sum (=) R (body x s) (body2 x s2)" using Cons.prems by simp
  moreover have "rel_sum (=) R (forM xs body t) (forM xs body2 t2)" if "R t t2" for t t2
    using that Cons.prems(2) by (intro Cons.IH) simp_all
  ultimately show ?case by (simp add: bindE_rel)
qed

lemma deref_np_random [simp]: "deref (w\<lparr>np_random := g\<rparr>) a = deref w a"
  by (simp add: deref_def)

lemma wf_world_np_random [simp]: "wf_world self (w\<lparr>np_random := g\<rparr>) = wf_world self w"
  by (simp add: wf_world_def)

lemma deref_set_trajectories:
  "a < length (hmm_objects w) \<Longrightarrow>
   deref (set_model a (\<lambda>m. m\<lparr>hidden_state_trajectories := v\<rparr>) w) a
     = (deref w a)\<lparr>hidden_state_trajectories := v\<rparr>"
  by (simp add: deref_def set_model_def Let_def)

lemma deref_append_trajectory:
  "a < length (hmm_objects w) \<Longrightarrow>
   deref (set_model a (append_trajectory s) w) a = append_trajectory s (deref w a)"
  by (simp add: deref_def set_model_def append_trajectory_def Let_def split: pyattr.splits)

lemma deref_set_Tij:
  "a < length (hmm_objects w) \<Longrightarrow>
   deref (set_model a (\<lambda>m. m\<lparr>Tij := v\<rparr>) w) a = (deref w a)\<lparr>Tij := v\<rparr>"
  by (simp add: deref_def set_model_def Let_def)

lemma deref_set_trajectory:
  "a < length (hmm_objects w) \<Longrightarrow>
   deref (set_model a (\<lambda>m. m\<lparr>hidden_state_trajectory := v\<rparr>) w) a
     = (deref w a)\<lparr>hidden_state_trajectory := v\<rparr>"
  by (simp add: deref_def set_model_def Let_def)

lemma wf_world_set_model:
  assumes "\<And>m. output_model (f m) = output_model m" and "wf_world self w"
  shows "wf_world self (set_model (model self) f w)"
  using only_live_changed_wf [OF set_model_live [of f self w]] assms by simp

lemma np_random_set_model [simp]: "np_random (set_model a f w) = np_random w"
  by (simp add: set_model_def)

lemma same_live_model: "same_live self w v \<Longrightarrow> model self < length (hmm_objects w)
    \<and> model self < length (hmm_objects v)"
  by (simp add: same_live_def wf_world_def)

lemma same_live_set_model:
  fixes w v :: "('p, 'u) world" and F :: "'p hmm \<Rightarrow> 'p hmm"
  assumes s: "same_live self w v"
    and o: "\<And>m. output_model (f m) = output_model m"
    and d: "\<And>w :: ('p, 'u) world. model self < length (hmm_objects w) \<Longrightarrow>
              deref (set_model (model self) f w) (model self) = F (deref w (model self))"
  shows "same_live self (set_model (model self) f w) (set_model (model self) f v)"
proof -
  have "wf_world self (set_model (model self) f w)" "wf_world self (set_model (model self) f v)"
    using s o by (simp_all add: same_live_def wf_world_set_model)
  moreover have "deref (set_model (model self) f w) (model self)
                   = deref (set_model (model self) f v) (model self)"
    using s same_live_model [OF s] by (simp add: d same_live_def)
  moreover have "np_random (set_model (model self) f w) = np_random (set_model (model self) f v)"
    using s by (simp add: same_live_def)
  ultimately show ?thesis by (simp add: same_live_def)
qed

lemma sampleHiddenStateTrajectory_same_live:
  assumes "same_live self w v"
  shows "rel_sum (=) (\<lambda>(s, w') (s2, v'). s = s2 \<and> same_live self w' v')
           (sampleHiddenStateTrajectory e self o_t w) (sampleHiddenStateTrajectory e self o_t v)"
proof -
  let ?r = "bindE (forward_part e (deref v (model self)) o_t) (\<lambda>log_alpha_it.
              backward_part e (deref v (model self)) log_alpha_it (length o_t) (np_random v))"
  have w: "sampleHiddenStateTrajectory e self o_t w
             = bindE ?r (\<lambda>(s_t, g). Inr (s_t, w\<lparr>np_random := g\<rparr>))"
    using assms by (simp add: sampleHiddenStateTrajectory_def same_live_def bindE_assoc Let_def)
  have v: "sampleHiddenStateTrajectory e self o_t v
             = bindE ?r (\<lambda>(s_t, g). Inr (s_t, v\<lparr>np_random := g\<rparr>))"
    by (simp add: sampleHiddenStateTrajectory_def bindE_assoc Let_def)
  show ?thesis
    unfolding w v using assms by (cases ?r) (auto simp: same_live_def)
qed

lemma updateHiddenStateTrajectories_same_live:
  fixes e :: "('o, 'p, 'u) env" and w v :: "('p, 'u) world"
  assumes "same_live self w v"
  shows "rel_sum (=) (same_live self)
           (updateHiddenStateTrajectories e self w) (updateHiddenStateTrajectories e self v)"
  unfolding updateHiddenStateTrajectories_def
proof (rule forM_rel)
  show "same_live self
          (set_model (model self) (\<lambda>m. m\<lparr>hidden_state_trajectories := Val []\<rparr>) w)
          (set_model (model self) (\<lambda>m. m\<lparr>hidden_state_trajectories := Val []\<rparr>) v)"
    by (rule same_live_set_model [OF assms]) (simp_all add: deref_set_trajectories)
next
  fix i and w1 v1 :: "('p, 'u) world"
  assume s: "same_live self w1 v1"
  show "rel_sum (=) (same_live self)
          (bindE (getitem (observations self) (int i)) (\<lambda>o_t.
            bindE (sampleHiddenStateTrajectory e self o_t w1) (\<lambda>(hidden_state_trajectory, w).
              Inr (set_model (model self) (append_trajectory hidden_state_trajectory) w))))
          (bindE (getitem (observations self) (int i)) (\<lambda>o_t.
            bindE (sampleHiddenStateTrajectory e self o_t v1) (\<lambda>(hidden_state_trajectory, w).
              Inr (set_model (model self) (append_trajectory hidden_state_trajectory) w))))"
  proof (cases "getitem (observations self) (int i)")
    case (Inl err)
    then show ?thesis by simp
  next
    case (Inr o_t)
    have "rel_sum (=) (same_live self)
            (bindE (sampleHiddenStateTrajectory e self o_t w1) (\<lambda>(hidden_state_trajectory, w).
              Inr (set_model (model self) (append_trajectory hidden_state_trajectory) w)))
            (bindE (sampleHiddenStateTrajectory e self o_t v1) (\<lambda>(hidden_state_trajectory, w).
              Inr (set_model (model self) (append_trajectory hidden_state_trajectory) w)))"
    proof (rule bindE_rel [OF sampleHiddenStateTrajectory_same_live [OF s]])
      fix x :: "nat list \<times> ('p, 'u) world" and y :: "nat list \<times> ('p, 'u) world"
      assume "(case x of (s, w') \<Rightarrow> \<lambda>(s2, v'). s = s2 \<and> same_live self w' v') y"
      then show "rel_sum (=) (same_live self)
            (case x of (s, w) \<Rightarrow> Inr (set_model (model self) (append_trajectory s) w))
            (case y of (s, w) \<Rightarrow> Inr (set_model (model self) (append_trajectory s) w))"
        by (cases x; cases y)
           (auto intro!: same_live_set_model [where F = "append_trajectory _"]
              simp: deref_append_trajectory)
    qed
    then show ?thesis using Inr by simp
  qed
qed

lemma deref_output_update:
  assumes "wf_world self w"
  shows "deref (w\<lparr>output_model_objects :=
                    (output_model_objects w)[output_model (hmm_objects w ! model self) := om],
                  np_random := g\<rparr>) (model self)
           = (deref w (model self))\<lparr>output_model := om\<rparr>"
  using assms by (simp add: deref_def wf_world_def Let_def)

lemma updateEmissionProbabilities_same_live:
  fixes e :: "('o, 'p, 'u) env" and w v :: "('p, 'u) world"
  assumes "same_live self w v"
  shows "rel_sum (=) (same_live self)
           (updateEmissionProbabilities e self w) (updateEmissionProbabilities e self v)"
proof -
  let ?m = "deref v (model self)"
  obtain om g where s: "output_model_sample e
            (map (\<lambda>state. collect_observations_in_state e ?m (observations self) state)
              (py_range (int (nstates ?m))))
            (output_model ?m) (np_random v) = (om, g)"
    by (cases "output_model_sample e
            (map (\<lambda>state. collect_observations_in_state e ?m (observations self) state)
              (py_range (int (nstates ?m))))
            (output_model ?m) (np_random v)")
  let ?w' = "w\<lparr>output_model_objects :=
                  (output_model_objects w)[output_model (hmm_objects w ! model self) := om],
                np_random := g\<rparr>"
  let ?v' = "v\<lparr>output_model_objects :=
                  (output_model_objects v)[output_model (hmm_objects v ! model self) := om],
                np_random := g\<rparr>"
  have w: "updateEmissionProbabilities e self w = Inr ?w'"
    using assms s by (simp add: updateEmissionProbabilities_def same_live_def Let_def)
  have v: "updateEmissionProbabilities e self v = Inr ?v'"
    using s by (simp add: updateEmissionProbabilities_def Let_def)
  have wfw: "wf_world self w" and wfv: "wf_world self v" using assms by (simp_all add: same_live_def)
  have "wf_world self ?w'" "wf_world self ?v'"
    using only_live_changed_wf [OF output_live wfw] only_live_changed_wf [OF output_live wfv]
    by simp_all
  then have "same_live self ?w' ?v'"
    using assms deref_output_update [OF wfw, where om = om and g = g]
      deref_output_update [OF wfv, where om = om and g = g]
    by (simp add: same_live_def)
  then show ?thesis unfolding w v by simp
qed

lemma updateTransitionMatrix_same_live:
  fixes e :: "('o, 'p, 'u) env" and w v :: "('p, 'u) world"
  assumes "same_live self w v"
  shows "rel_sum (=) (same_live self)
           (updateTransitionMatrix e self w) (updateTransitionMatrix e self v)"
proof (cases "reversible self")
  case False
  then show ?thesis by (simp add: updateTransitionMatrix_def)
next
  case True
  obtain T' g where s: "transition_matrix_sampler_rev e (count_matrix e (deref v (model self)))
                         (transition_matrix_sampling_steps self) (np_random v) = (T', g)"
    by (cases "transition_matrix_sampler_rev e (count_matrix e (deref v (model self)))
                         (transition_matrix_sampling_steps self) (np_random v)")
  have w: "updateTransitionMatrix e self w
             = Inr (set_model (model self) (\<lambda>m. m\<lparr>Tij := T'\<rparr>) (w\<lparr>np_random := g\<rparr>))"
    using assms s True by (simp add: updateTransitionMatrix_def same_live_def Let_def)
  have v: "updateTransitionMatrix e self v
             = Inr (set_model (model self) (\<lambda>m. m\<lparr>Tij := T'\<rparr>) (v\<lparr>np_random := g\<rparr>))"
    using s True by (simp add: updateTransitionMatrix_def Let_def)
  have "same_live self (w\<lparr>np_random := g\<rparr>) (v\<lparr>np_random := g\<rparr>)"
    using assms by (simp add: same_live_def)
  then have "same_live self (set_model (model self) (\<lambda>m. m\<lparr>Tij := T'\<rparr>) (w\<lparr>np_random := g\<rparr>))
                            (set_model (model self) (\<lambda>m. m\<lparr>Tij := T'\<rparr>) (v\<lparr>np_random := g\<rparr>))"
    by (rule same_live_set_model) (simp_all add: deref_set_Tij)
  then show ?thesis unfolding w v by simp
qed

lemma update_same_live:
  fixes e :: "('o, 'p, 'u) env" and w v :: "('p, 'u) world"
  assumes "same_live self w v"
  shows "rel_sum (=) (same_live self) (update e self w) (update e self v)"
  unfolding update_def
proof (rule bindE_rel [OF updateHiddenStateTrajectories_same_live [OF assms]])
  fix w1 v1 :: "('p, 'u) world"
  assume s1: "same_live self w1 v1"
  show "rel_sum (=) (same_live self)
          (bindE (updateEmissionProbabilities e self w1) (updateTransitionMatrix e self))
          (bindE (updateEmissionProbabilities e self v1) (updateTransitionMatrix e self))"
    by (rule bindE_rel [OF updateEmissionProbabilities_same_live [OF s1]])
       (rule updateTransitionMatrix_same_live)
qed

lemma sweeps_same_live:
  fixes e :: "('o, 'p, 'u) env" and w v :: "('p, 'u) world"
  assumes "same_live self w v"
  shows "rel_sum (=) (same_live self) (sweeps e self k w) (sweeps e self k v)"
  unfolding sweeps_def
proof (rule forM_rel [where R = "same_live self"])
  show "same_live self w v" by fact
next
  fix x and w1 v1 :: "('p, 'u) world"
  assume "same_live self w1 v1"
  then show "rel_sum (=) (same_live self) (update e self w1) (update e self v1)"
    by (rule update_same_live)
qed

lemma forM_const:
  "length xs = length ys \<Longrightarrow> forM xs (\<lambda>_. f) s = forM ys (\<lambda>_. f) s"
proof (induction xs arbitrary: ys s)
  case Nil
  then show ?case by simp
next
  case (Cons x xs)
  then obtain y ys' where ys: "ys = y # ys'" "length xs = length ys'" by (cases ys) simp_all
  show ?case
  proof (cases "f s")
    case (Inl err)
    then show ?thesis unfolding ys(1) by simp
  next
    case (Inr t)
    then show ?thesis unfolding ys(1) using Cons.IH [OF ys(2), of t] by simp
  qed
qed

lemma sweeps_add: "sweeps e self (a + b) w = bindE (sweeps e self a w) (sweeps e self b)"
proof -
  have u: "[0..<a + b] = [0..<a] @ [a..<a + b]" by (rule upt_add_eq_append) simp
  have c: "forM [a..<a + b] (\<lambda>iteration. update e self) t
             = forM [0..<b] (\<lambda>iteration. update e self) t" for t
    by (rule forM_const) simp
  have "forM [0..<a + b] (\<lambda>iteration. update e self) w
          = bindE (forM [0..<a] (\<lambda>iteration. update e self) w)
              (forM [a..<a + b] (\<lambda>iteration. update e self))"
    unfolding u by (rule forM_append)
  also have "\<dots> = bindE (forM [0..<a] (\<lambda>iteration. update e self) w)
              (forM [0..<b] (\<lambda>iteration. update e self))"
    by (rule bindE_cong_Inr) (rule c)
  finally show ?thesis
    unfolding sweeps_def [abs_def] .
qed

lemma sweeps_range: "forM (py_range n) (\<lambda>iteration. update e self) w = sweeps e self (nat n) w"
  by (simp add: sweeps_def py_range_def)

lemma deepcopy_facts:
  assumes wf: "wf_world self w"
  shows "fst (deepcopy (model self) w) = length (hmm_objects w)"
    and "same_live self (snd (deepcopy (model self) w)) w"
    and "separate self (snd (deepcopy (model self) w)) (length (hmm_objects w))"
    and "deref (snd (deepcopy (model self) w)) (length (hmm_objects w)) = deref w (model self)"
    and "length (hmm_objects (snd (deepcopy (model self) w))) = Suc (length (hmm_objects w))"
proof -
  let ?w1 = "snd (deepcopy (model self) w)"
  have m: "model self < length (hmm_objects w)"
    and o: "output_model (hmm_objects w ! model self) < length (output_model_objects w)"
    using wf by (simp_all add: wf_world_def)
  show "fst (deepcopy (model self) w) = length (hmm_objects w)"
    by (simp add: deepcopy_def Let_def)
  show l: "length (hmm_objects ?w1) = Suc (length (hmm_objects w))"
    by (simp add: deepcopy_def Let_def)
  have wf1: "wf_world self ?w1"
    using m o by (simp add: wf_world_def deepcopy_def Let_def nth_append)
  have d: "deref ?w1 (model self) = deref w (model self)"
    using m o by (simp add: deref_def deepcopy_def Let_def nth_append)
  have r: "np_random ?w1 = np_random w" by (simp add: deepcopy_def Let_def)
  show "same_live self ?w1 w" using wf wf1 d r by (simp add: same_live_def)
  show "separate self ?w1 (length (hmm_objects w))"
    using m o by (simp add: separate_def deepcopy_def Let_def nth_append)
  show "deref ?w1 (length (hmm_objects w)) = deref w (model self)"
    using m o by (simp add: deref_def deepcopy_def Let_def nth_append)
qed

lemma deepcopy_separate:
  assumes "wf_world self w" and "separate self w a"
  shows "separate self (snd (deepcopy (model self) w)) a
         \<and> deref (snd (deepcopy (model self) w)) a = deref w a"
  using assms by (simp add: wf_world_def separate_def deref_def deepcopy_def Let_def nth_append)

lemma clear_facts:
  assumes a': "a' \<noteq> model self" "a' < length (hmm_objects w)"
  defines "w2 \<equiv> set_model a' (\<lambda>m. m\<lparr>hidden_state_trajectory := PyNone\<rparr>) w"
  shows "wf_world self w \<Longrightarrow> same_live self w2 w"
    and "separate self w a \<Longrightarrow> separate self w2 a"
    and "a \<noteq> a' \<Longrightarrow> deref w2 a = deref w a"
    and "deref w2 a' = (deref w a')\<lparr>hidden_state_trajectory := PyNone\<rparr>"
proof -
  show "wf_world self w \<Longrightarrow> same_live self w2 w"
    using a' by (simp add: same_live_def wf_world_def w2_def set_model_def deref_def)
  show "separate self w a \<Longrightarrow> separate self w2 a"
    using a' by (auto simp: separate_def w2_def set_model_def nth_list_update)
  show "a \<noteq> a' \<Longrightarrow> deref w2 a = deref w a"
    by (simp add: w2_def set_model_def deref_def)
  show "deref w2 a' = (deref w a')\<lparr>hidden_state_trajectory := PyNone\<rparr>"
    using a'(2) unfolding w2_def by (rule deref_set_trajectory)
qed

lemma take_snapshot_facts:
  assumes wf: "wf_world self w"
  shows "fst (take_snapshot self save w) = length (hmm_objects w)"
    and "same_live self (snd (take_snapshot self save w)) w"
    and "separate self (snd (take_snapshot self save w)) (length (hmm_objects w))"
    and "deref (snd (take_snapshot self save w)) (length (hmm_objects w))
           = snapshot save (deref w (model self))"
    and "separate self w a \<Longrightarrow>
           separate self (snd (take_snapshot self save w)) a
           \<and> deref (snd (take_snapshot self save w)) a = deref w a"
proof -
  let ?w1 = "snd (deepcopy (model self) w)" and ?a = "length (hmm_objects w)"
  note dc = deepcopy_facts [OF wf]
  note f = split_def Let_def dc(1)
  have am: "?a \<noteq> model self" "?a < length (hmm_objects ?w1)"
    using wf dc(5) by (simp_all add: wf_world_def)
  have wf1: "wf_world self ?w1" using dc(2) by (simp add: same_live_def)
  show "fst (take_snapshot self save w) = ?a"
    by (simp add: take_snapshot_def f)
  show "same_live self (snd (take_snapshot self save w)) w"
  proof (cases save)
    case True
    then show ?thesis using dc(2) by (simp add: take_snapshot_def f)
  next
    case False
    have "same_live self (set_model ?a (\<lambda>m. m\<lparr>hidden_state_trajectory := PyNone\<rparr>) ?w1) ?w1"
      by (rule clear_facts(1) [OF am wf1])
    then show ?thesis using False dc(2) by (simp add: take_snapshot_def f same_live_def)
  qed
  show "separate self (snd (take_snapshot self save w)) ?a"
    using dc(3) clear_facts(2) [OF am, where a = ?a]
    by (simp add: take_snapshot_def f)
  show "deref (snd (take_snapshot self save w)) ?a = snapshot save (deref w (model self))"
    using dc(4) clear_facts(4) [OF am]
    by (simp add: take_snapshot_def f snapshot_def)
  show "separate self (snd (take_snapshot self save w)) a
           \<and> deref (snd (take_snapshot self save w)) a = deref w a"
    if s: "separate self w a"
  proof -
    from deepcopy_separate [OF wf s]
    have s1: "separate self ?w1 a" and d1: "deref ?w1 a = deref w a" by simp_all
    have "a \<noteq> ?a" using s by (simp add: separate_def)
    then show ?thesis
      using s1 d1 clear_facts(2) [OF am, where a = a]
        clear_facts(3) [OF am, where a = a]
      by (simp add: take_snapshot_def f)
  qed
qed

lemma sample_unfold:
  "sample e self nsamples nburn nthin save w =
     bindE (sweeps e self (nat nburn) w) (\<lambda>w.
       forM (py_range nsamples)
         (\<lambda>iteration (models, w).
            bindE (sweeps e self (nat nthin) w) (\<lambda>w.
              Inr (models @ [fst (take_snapshot self save w)], snd (take_snapshot self save w))))
         ([], w))"
  by (simp add: sample_def sweeps_range take_snapshot_def Let_def split_def)

lemma same_live_refl: "wf_world self w \<Longrightarrow> same_live self w w"
  by (simp add: same_live_def)

lemma same_live_trans: "same_live self w v \<Longrightarrow> same_live self v u \<Longrightarrow> same_live self w u"
  by (simp add: same_live_def)

lemma sweeps_wf: "sweeps e self k w = Inr w' \<Longrightarrow> wf_world self w \<Longrightarrow> wf_world self w'"
  using only_live_changed_wf sweeps_live by blast

lemma collected_step:
  fixes e :: "('o, 'p, 'u) env" and wb v :: "('p, 'u) world"
  assumes c: "collected e self save nt wb i (models, wi) v"
  shows "rel_sum (=) (collected e self save nt wb (Suc i))
           (bindE (sweeps e self nt wi) (\<lambda>w.
              Inr (models @ [fst (take_snapshot self save w)], snd (take_snapshot self save w))))
           (sweeps e self nt v)"
proof -
  from c have sv: "sweeps e self (i * nt) wb = Inr v" and sl: "same_live self wi v"
    and len: "length models = i"
    and old: "\<forall>k<i. separate self wi (models ! k)
            \<and> (\<exists>wk. sweeps e self ((k + 1) * nt) wb = Inr wk
                  \<and> deref wi (models ! k) = snapshot save (deref wk (model self)))"
    and pre: "\<forall>a. separate self wb a \<longrightarrow> separate self wi a \<and> deref wi a = deref wb a"
    by (simp_all add: collected_def)
  have rel: "rel_sum (=) (same_live self) (sweeps e self nt wi) (sweeps e self nt v)"
    by (rule sweeps_same_live [OF sl])
  show ?thesis
  proof (cases "sweeps e self nt wi")
    case (Inl err)
    then show ?thesis using rel by (cases "sweeps e self nt v") simp_all
  next
    case (Inr wi')
    then obtain v' where v': "sweeps e self nt v = Inr v'" and sl': "same_live self wi' v'"
      using rel by (cases "sweeps e self nt v") simp_all
    let ?a = "fst (take_snapshot self save wi')" and ?w2 = "snd (take_snapshot self save wi')"
    have wf': "wf_world self wi'" using sl' by (simp add: same_live_def)
    note ts = take_snapshot_facts [OF wf', where save = save]
    have live: "only_live_changed self wi wi'" by (rule sweeps_live [OF Inr])
    have keep: "separate self ?w2 a \<and> deref ?w2 a = deref wi a" if "separate self wi a" for a
    proof -
      have "separate self wi' a" "deref wi' a = deref wi a"
        using only_live_changed_separate [OF live that] only_live_changed_deref [OF live that]
        by simp_all
      then show ?thesis using ts(5) [where a = a] by simp
    qed
    have s1: "sweeps e self (Suc i * nt) wb = Inr v'"
    proof -
      have "sweeps e self (i * nt + nt) wb = bindE (sweeps e self (i * nt) wb) (sweeps e self nt)"
        by (rule sweeps_add)
      then show ?thesis using sv v' by (simp add: add.commute)
    qed
    have s2: "same_live self ?w2 v'" using ts(2) sl' by (rule same_live_trans)
    have s3: "length (models @ [?a]) = Suc i" using len by simp
    have s4: "separate self ?w2 ((models @ [?a]) ! k)
            \<and> (\<exists>wk. sweeps e self ((k + 1) * nt) wb = Inr wk
                  \<and> deref ?w2 ((models @ [?a]) ! k) = snapshot save (deref wk (model self)))"
      if k: "k < Suc i" for k
    proof (cases "k = i")
      case True
      have n: "(models @ [?a]) ! k = ?a" using True len by (simp add: nth_append)
      have "deref ?w2 ?a = snapshot save (deref v' (model self))"
        using ts(1,4) sl' by (simp add: same_live_def)
      moreover have "separate self ?w2 ?a" using ts(1,3) by simp
      moreover have "sweeps e self ((k + 1) * nt) wb = Inr v'" using s1 True by simp
      ultimately show ?thesis unfolding n by blast
    next
      case False
      then have ki: "k < i" using k by simp
      then have n: "(models @ [?a]) ! k = models ! k" using len by (simp add: nth_append)
      from old ki obtain wk where "separate self wi (models ! k)"
        "sweeps e self ((k + 1) * nt) wb = Inr wk"
        "deref wi (models ! k) = snapshot save (deref wk (model self))"
        by blast
      then show ?thesis unfolding n using keep [of "models ! k"] by auto
    qed
    have s5: "separate self ?w2 a \<and> deref ?w2 a = deref wb a" if "separate self wb a" for a
      using pre that keep [of a] by auto
    have "collected e self save nt wb (Suc i) (models @ [?a], ?w2) v'"
      unfolding collected_def using s1 s2 s3 s4 s5 by simp
    then show ?thesis using Inr v' by simp
  qed
qed

lemma forM_single: "forM [x] body s = body x s"
  by (cases "body x s") simp_all

lemma collect_loop:
  fixes e :: "('o, 'p, 'u) env" and wb :: "('p, 'u) world"
  assumes wf: "wf_world self wb"
  shows "rel_sum (=) (collected e self save nt wb i)
           (forM [0..<i]
              (\<lambda>iteration (models, w).
                 bindE (sweeps e self nt w) (\<lambda>w.
                   Inr (models @ [fst (take_snapshot self save w)],
                        snd (take_snapshot self save w))))
              ([], wb))
           (sweeps e self (i * nt) wb)"
proof (induction i)
  case 0
  have "collected e self save nt wb 0 ([], wb) wb"
    using wf by (simp add: collected_def sweeps_def same_live_refl)
  then show ?case by (simp add: sweeps_def)
next
  case (Suc i)
  let ?B = "(\<lambda>iteration (models, w).
                 bindE (sweeps e self nt w) (\<lambda>w.
                   Inr (models @ [fst (take_snapshot self save w)],
                        snd (take_snapshot self save w))))"
  have "forM [i] ?B = ?B i" by (rule ext) (rule forM_single)
  then have l: "forM [0..<Suc i] ?B ([], wb) = bindE (forM [0..<i] ?B ([], wb)) (?B i)"
    by (simp add: forM_append)
  have "sweeps e self (i * nt + nt) wb = bindE (sweeps e self (i * nt) wb) (sweeps e self nt)"
    by (rule sweeps_add)
  then have r: "sweeps e self (Suc i * nt) wb
                  = bindE (sweeps e self (i * nt) wb) (sweeps e self nt)"
    by (simp add: add.commute)
  show ?case
    unfolding l r
  proof (rule bindE_rel [OF Suc.IH])
    fix x :: "nat list \<times> ('p, 'u) world" and v :: "('p, 'u) world"
    assume c: "collected e self save nt wb i x v"
    obtain models wi where x: "x = (models, wi)" by (cases x)
    show "rel_sum (=) (collected e self save nt wb (Suc i)) (?B i x) (sweeps e self nt v)"
      unfolding x prod.case by (rule collected_step [OF c [unfolded x]])
  qed
qed

lemma sample_simulates_sweeps:
  fixes e :: "('o, 'p, 'u) env" and w :: "('p, 'u) world"
  assumes wf: "wf_world self w"
  shows "rel_sum (=)
           (\<lambda>r v. \<exists>wb. sweeps e self (nat nburn) w = Inr wb \<and> wf_world self wb
                    \<and> only_live_changed self w wb
                    \<and> collected e self save (nat nthin) wb (nat nsamples) r v)
           (sample e self nsamples nburn nthin save w)
           (sweeps e self (nat nburn + nat nsamples * nat nthin) w)"
proof (cases "sweeps e self (nat nburn) w")
  case (Inl err)
  then show ?thesis by (simp add: sample_unfold sweeps_add)
next
  case (Inr wb)
  have wfb: "wf_world self wb" by (rule sweeps_wf [OF Inr wf])
  have live: "only_live_changed self w wb" by (rule sweeps_live [OF Inr])
  have "rel_sum (=) (collected e self save (nat nthin) wb (nat nsamples))
           (sample e self nsamples nburn nthin save w)
           (sweeps e self (nat nburn + nat nsamples * nat nthin) w)"
    using collect_loop [OF wfb, of e save "nat nthin" "nat nsamples"] Inr
    by (simp add: sample_unfold sweeps_add py_range_def)
  then show ?thesis
    using Inr wfb live
    by (cases "sample e self nsamples nburn nthin save w";
        cases "sweeps e self (nat nburn + nat nsamples * nat nthin) w") auto
qed

lemma sample_collected:
  fixes e :: "('o, 'p, 'u) env" and w :: "('p, 'u) world"
  assumes wf: "wf_world self w"
    and run: "sample e self nsamples nburn nthin save w = Inr (models, w')"
  shows "\<exists>wb wn. sweeps e self (nat nburn) w = Inr wb \<and> wf_world self wb
           \<and> only_live_changed self w wb
           \<and> sweeps e self (nat nburn + nat nsamples * nat nthin) w = Inr wn
           \<and> collected e self save (nat nthin) wb (nat nsamples) (models, w') wn"
  using sample_simulates_sweeps [OF wf, of e nburn save nthin nsamples] run
  by (cases "sweeps e self (nat nburn + nat nsamples * nat nthin) w") auto

lemma collected_snapshots:
  fixes e :: "('o, 'p, 'u) env" and w :: "('p, 'u) world"
  assumes b: "sweeps e self nb w = Inr wb"
    and c: "collected e self save nt wb i (models, w') wn"
    and k: "k < i"
  shows "\<exists>wk. sweeps e self (nb + (k + 1) * nt) w = Inr wk
           \<and> deref w' (models ! k) = snapshot save (deref wk (model self))"
proof -
  from c k obtain wk where wk: "sweeps e self ((k + 1) * nt) wb = Inr wk"
    "deref w' (models ! k) = snapshot save (deref wk (model self))"
    by (auto simp: collected_def)
  have "sweeps e self (nb + (k + 1) * nt) w = Inr wk"
    using sweeps_add [of e self nb "(k + 1) * nt" w] b wk(1) by simp
  then show ?thesis using wk(2) by blast
qed

lemma ex_wf_world: "wf_world ex_bhmm ex_world"
  by (simp add: wf_world_def ex_defs)

lemma ex_sample:
  "sample ex_env ex_bhmm 1 0 1 False ex_world
     = Inr ([1],
            \<lparr>hmm_objects =
               [ex_hmm\<lparr>hidden_state_trajectories := Val [[1, 0]]\<rparr>,
                ex_hmm\<lparr>output_model := 1, hidden_state_trajectories := Val [[1, 0]],
                        hidden_state_trajectory := PyNone\<rparr>],
             output_model_objects = [(), ()],
             np_random = sconst 0\<rparr>)"
  by (simp add: ex_defs sampler_defs upt_conv_Cons numeral_2_eq_2 Let_def)

lemma init_no_observations [simp]:
  "init gen [] n initial_model rv vb steps ty w = Inl NoObservations"
  by (simp add: init_def)

lemma init_attributes:
  assumes "init gen obs n initial_model rv vb steps ty w = Inr (self, w')"
  shows "reversible self = rv \<and> observations self = obs \<and> obs \<noteq> []
         \<and> ntrajectories self = length obs \<and> self_nstates self = n
         \<and> transition_matrix_sampling_steps self = steps"
  using assms by (auto simp: init_def bindE_eq_Inr split: if_splits)

lemma init_initial_model:
  assumes a: "a < length (hmm_objects w)"
      "output_model (hmm_objects w ! a) < length (output_model_objects w)"
    and i: "init gen obs n (Some a) rv vb steps ty w = Inr (self, w')"
  shows "wf_world self w' \<and> deref w' (model self) = deref w a \<and> model self \<noteq> a"
proof -
  from i have m: "model self = length (hmm_objects w)" and w': "w' = snd (deepcopy a w)"
    by (auto simp: init_def bindE_eq_Inr deepcopy_def Let_def split: if_splits)
  show ?thesis
    using a by (simp add: m w' wf_world_def deref_def deepcopy_def Let_def nth_append)
qed


lemma fmax_finite:
  "isfinite a \<Longrightarrow> isfinite b \<or> b = NInf \<Longrightarrow> isfinite (fmax a b)"
  by (cases a; cases b) simp_all

lemma foldl_fmax_finite:
  "isfinite a \<Longrightarrow> \<forall>v\<in>set xs. isfinite v \<or> v = NInf \<Longrightarrow> isfinite (foldl fmax a xs)"
  by (induction xs arbitrary: a) (simp_all add: fmax_finite)

lemma fmax_NInf_left: "isfinite b \<or> b = NInf \<Longrightarrow> fmax NInf b = b"
  by (cases b) simp_all

lemma foldl_fmax_some_finite:
  assumes "\<forall>v\<in>set xs. isfinite v \<or> v = NInf" and "\<exists>v\<in>set xs. isfinite v"
  shows "isfinite (foldl fmax NInf xs)"
  using assms
proof (induction xs)
  case Nil
  then show ?case by simp
next
  case (Cons y ys)
  have y: "isfinite y \<or> y = NInf" using Cons.prems(1) by simp
  show ?case
  proof (cases "isfinite y")
    case True
    then show ?thesis
      using Cons.prems(1) by (simp add: fmax_NInf_left foldl_fmax_finite)
  next
    case False
    then have "y = NInf" using y by simp
    moreover have "\<exists>v\<in>set ys. isfinite v" using Cons.prems(2) False by auto
    ultimately show ?thesis using Cons.IH Cons.prems(1) by simp
  qed
qed

lemma amax_log_weights:
  assumes "\<forall>v\<in>set lp. isfinite v \<or> v = NInf" and "\<exists>v\<in>set lp. isfinite v"
  shows "\<exists>M. amax lp = Inr (Fin M)"
proof (cases lp)
  case Nil
  then show ?thesis using assms(2) by simp
next
  case (Cons x xs)
  have "isfinite (foldl fmax x xs)"
  proof (cases "isfinite x")
    case True
    then show ?thesis using assms(1) Cons by (simp add: foldl_fmax_finite)
  next
    case False
    then have "x = NInf" "\<exists>v\<in>set xs. isfinite v" using assms Cons by auto
    then show ?thesis using assms(1) Cons by (simp add: foldl_fmax_some_finite)
  qed
  then obtain M where "foldl fmax x xs = Fin M" by (cases "foldl fmax x xs") simp_all
  then show ?thesis using Cons by (simp add: amax_def)
qed

lemma sum_list_weight_nonneg: "0 \<le> (\<Sum>v\<leftarrow>lp. weight v)"
proof (induction lp)
  case Nil
  show ?case by simp
next
  case (Cons v lp)
  have "0 \<le> weight v" by (cases v) simp_all
  then show ?case using Cons by simp
qed

lemma sum_list_weight_pos:
  assumes "\<exists>v\<in>set lp. isfinite v"
  shows "0 < (\<Sum>v\<leftarrow>lp. weight v)"
  using assms
proof (induction lp)
  case Nil
  then show ?case by simp
next
  case (Cons v lp)
  show ?case
  proof (cases "isfinite v")
    case True
    then obtain r where "v = Fin r" by (cases v) simp_all
    then have "0 < weight v" by simp
    then show ?thesis using sum_list_weight_nonneg [of lp] by simp
  next
    case False
    then have "\<exists>v\<in>set lp. isfinite v" using Cons.prems by auto
    then have "0 < (\<Sum>v\<leftarrow>lp. weight v)" by (rule Cons.IH)
    moreover have "0 \<le> weight v" by (cases v) simp_all
    ultimately show ?thesis by simp
  qed
qed

lemma shifted_weight:
  "isfinite v \<or> v = NInf \<Longrightarrow> fexp (v - Fin M) = Fin (weight v * exp (- M))"
  by (cases v) (simp_all add: minus_float64_def exp_diff exp_minus divide_inverse)

lemma logsumexp_log_weights:
  assumes lw: "\<forall>v\<in>set lp. isfinite v \<or> v = NInf" and fin: "\<exists>v\<in>set lp. isfinite v"
  shows "logsumexp lp = Inr (Fin (ln (\<Sum>v\<leftarrow>lp. weight v)))"
proof -
  let ?S = "\<Sum>v\<leftarrow>lp. weight v"
  obtain M where M: "amax lp = Inr (Fin M)" using amax_log_weights [OF lw fin] by blast
  have m: "map fexp (map (\<lambda>x. x - Fin M) lp) = map Fin (map (\<lambda>v. weight v * exp (- M)) lp)"
    using lw by (simp add: shifted_weight)
  have s: "(\<Sum>v\<leftarrow>lp. weight v * exp (- M)) = ?S * exp (- M)"
    by (simp add: sum_list_mult_const)
  have S: "0 < ?S" by (rule sum_list_weight_pos [OF fin])
  then have p: "0 < ?S * exp (- M)" by simp
  have "ln (?S * exp (- M)) + M = ln ?S"
    using S by (simp add: ln_mult)
  then show ?thesis
    using p by (simp add: logsumexp_def M m np_sum_Fin s plus_float64_def del: map_map)
qed

lemma normalised_log_weights:
  assumes l: "logsumexp lp = Inr l"
    and lw: "\<forall>v\<in>set lp. isfinite v \<or> v = NInf" and fin: "\<exists>v\<in>set lp. isfinite v"
  shows "exp_minus lp l = map (\<lambda>v. Fin (weight v / (\<Sum>u\<leftarrow>lp. weight u))) lp"
proof -
  let ?S = "\<Sum>v\<leftarrow>lp. weight v"
  have l': "l = Fin (ln ?S)" using l logsumexp_log_weights [OF lw fin] by simp
  have S: "0 < ?S" by (rule sum_list_weight_pos [OF fin])
  have "fexp (v - Fin (ln ?S)) = Fin (weight v / ?S)" if "isfinite v \<or> v = NInf" for v
    using that S by (cases v) (simp_all add: minus_float64_def exp_diff)
  then show ?thesis using lw by (simp add: exp_minus_def l')
qed

lemma normalised_finite:
  assumes "logsumexp (map Fin rs) = Inr l"
  shows "exp_minus (map Fin rs) l = map (\<lambda>r. Fin (exp r / (\<Sum>q\<leftarrow>rs. exp q))) rs"
proof -
  have ne: "rs \<noteq> []" using assms by (auto simp: logsumexp_def amax_def)
  have w: "(\<Sum>u\<leftarrow>map Fin rs. weight u) = (\<Sum>q\<leftarrow>rs. exp q)"
    by (simp add: comp_def)
  have "exp_minus (map Fin rs) l
          = map (\<lambda>v. Fin (weight v / (\<Sum>u\<leftarrow>map Fin rs. weight u))) (map Fin rs)"
    using ne by (intro normalised_log_weights [OF assms]) (auto simp: neq_Nil_conv)
  then show ?thesis unfolding w by (simp add: comp_def)
qed

lemma backward_part_in_range:
  fixes e :: "('o, 'p, 'u) env" and g :: "'u stream"
  assumes wf: "hmm_wf m" and ws: "well_shaped a (nstates m) T" and T: "0 < T"
    and run: "backward_part e m a T g = Inr (s, g')"
  shows "\<forall>t. Suc t < T \<longrightarrow> s ! Suc t < nstates m"
proof -
  let ?B = "(\<lambda>t (s, g). bindE (backward_draw e m a t s (shd g)) (\<lambda>s'. Inr (s', stl g)))"
  from run [unfolded backward_part_draws [OF wf ws T]]
  obtain k0 where
    loop: "forM (rev [0..<T - 1]) ?B ((replicate T 0)[T - 1 := k0], stl g) = Inr (s, g')"
    by (auto simp: bindE_eq_Inr)
  let ?J = "\<lambda>k (sk, gk :: 'u stream). length sk = T
              \<and> (\<forall>t. k \<le> t \<and> Suc t < T \<longrightarrow> sk ! Suc t < nstates m)"
  have "?J 0 (s, g')"
  proof (rule forM_rev_upt_partial [OF loop, where I = ?J])
    show "?J (T - 1) ((replicate T 0)[T - 1 := k0], stl g)"
      by auto
  next
    fix k and sg sg' :: "nat list \<times> 'u stream"
    assume k: "k < T - 1" and inv: "?J (Suc k) sg" and b: "?B k sg = Inr sg'"
    obtain sk gk where sg: "sg = (sk, gk)" by (cases sg)
    obtain sk' gk' where sg': "sg' = (sk', gk')" by (cases sg')
    from inv sg have len: "length sk = T"
      and prev: "\<forall>t. Suc k \<le> t \<and> Suc t < T \<longrightarrow> sk ! Suc t < nstates m"
      by auto
    from b sg sg' have d: "backward_draw e m a k sk (shd gk) = Inr sk'"
      by (auto simp: bindE_eq_Inr)
    from d obtain kk where nx: "sk ! Suc k < nstates m" and sk': "sk' = sk[k := kk]"
      by (auto simp: backward_draw_def bindE_eq_Inr split: if_splits)
    have "sk' ! Suc t < nstates m" if "k \<le> t" "Suc t < T" for t
    proof (cases "t = k")
      case True
      then show ?thesis using nx sk' by simp
    next
      case False
      then have "Suc k \<le> t" using that by simp
      then show ?thesis using prev that sk' by simp
    qed
    then show "?J k sg'" using sg' sk' len by simp
  qed
  then show ?thesis by simp
qed

lemma backward_part_complete:
  fixes e :: "('o, 'p, 'u) env" and g :: "'u stream"
  assumes wf: "hmm_wf m" and ws: "well_shaped a (nstates m) T" and T: "0 < T"
    and len: "length s = T"
    and last: "drawn_last e m a T g s"
    and rest: "\<forall>t. Suc t < T \<longrightarrow> s ! Suc t < nstates m \<and> drawn_at e m a T g s t"
  shows "backward_part e m a T g = Inr (s, sdrop T g)"
proof -
  let ?n = "nstates m"
  let ?B = "(\<lambda>t (s, g). bindE (backward_draw e m a t s (shd g)) (\<lambda>s'. Inr (s', stl g)))"
  from last obtain l where l: "logsumexp (last_log_p m a T) = Inr l"
    and k0: "choice e ?n (exp_minus (last_log_p m a T) l) (shd g) = Inr (s ! (T - 1))"
    by (auto simp: drawn_last_def)
  let ?I = "\<lambda>k (sk, gk). length sk = T \<and> gk = sdrop (T - k) g
              \<and> (\<forall>t. k \<le> t \<and> t < T \<longrightarrow> sk ! t = s ! t)"
  have "\<exists>sg. forM (rev [0..<T - 1]) ?B ((replicate T 0)[T - 1 := s ! (T - 1)], stl g) = Inr sg
          \<and> ?I 0 sg"
  proof (rule forM_rev_upt_total [where I = ?I])
    show "?I (T - 1) ((replicate T 0)[T - 1 := s ! (T - 1)], stl g)"
    proof -
      have "((replicate T 0)[T - 1 := s ! (T - 1)]) ! t = s ! t" if "T - 1 \<le> t" "t < T" for t
      proof -
        have "t = T - 1" using that by linarith
        then show ?thesis using T by simp
      qed
      then show ?thesis using T by (simp add: sdrop_stl [symmetric])
    qed
  next
    fix k and sg :: "nat list \<times> 'u stream"
    assume k: "k < T - 1" and inv: "?I (Suc k) sg"
    obtain sk gk where sg: "sg = (sk, gk)" by (cases sg)
    from inv sg have lk: "length sk = T" and gk: "gk = sdrop (T - Suc k) g"
      and agree: "\<forall>t. Suc k \<le> t \<and> t < T \<longrightarrow> sk ! t = s ! t"
      by auto
    have kT: "k < T" "Suc k < T" using k by simp_all
    have nxt: "sk ! Suc k = s ! Suc k" using agree kT by simp
    have nx: "s ! Suc k < ?n" and dr: "drawn_at e m a T g s k" using rest kT by simp_all
    have shd: "shd gk = g !! (T - 1 - k)" using gk by simp
    from dr obtain l' where l': "logsumexp (step_log_p m a k (s ! Suc k)) = Inr l'"
      and kk: "choice e ?n (exp_minus (step_log_p m a k (s ! Suc k)) l') (g !! (T - 1 - k))
                 = Inr (s ! k)"
      by (auto simp: drawn_at_def)
    have b: "?B k sg = Inr (sk[k := s ! k], stl gk)"
      using sg nx l' kk by (simp add: backward_draw_def nxt shd)
    have g2: "stl gk = sdrop (T - k) g"
      using gk k by (simp add: Suc_diff_Suc)
    have "(sk[k := s ! k]) ! t = s ! t" if "k \<le> t" "t < T" for t
    proof (cases "t = k")
      case True
      then show ?thesis using lk that by simp
    next
      case False
      then have "Suc k \<le> t" using that by simp
      then show ?thesis using agree that False by simp
    qed
    then have "?I k (sk[k := s ! k], stl gk)" using lk g2 by simp
    then show "\<exists>s'. ?B k sg = Inr s' \<and> ?I k s'" using b by blast
  qed
  then obtain sk gk where
    loop: "forM (rev [0..<T - 1]) ?B ((replicate T 0)[T - 1 := s ! (T - 1)], stl g) = Inr (sk, gk)"
    and lk: "length sk = T" and gk: "gk = sdrop T g" and agree: "\<forall>t<T. sk ! t = s ! t"
    by auto
  have "sk = s" using lk len agree by (intro nth_equalityI) simp_all
  then show ?thesis
    unfolding backward_part_draws [OF wf ws T] using l k0 loop gk by simp
qed

lemma backward_part_exact:
  fixes e :: "('o, 'p, 'u) env" and g :: "'u stream"
  assumes wf: "hmm_wf m" and ws: "well_shaped a (nstates m) T" and T: "0 < T"
  shows "backward_part e m a T g = Inr (s, g') \<longleftrightarrow>
           length s = T \<and> g' = sdrop T g \<and> drawn_last e m a T g s
           \<and> (\<forall>t. Suc t < T \<longrightarrow> s ! Suc t < nstates m \<and> drawn_at e m a T g s t)"
  using backward_part_partial [OF wf ws T, of e g s g']
    backward_part_in_range [OF wf ws T, of e g s g']
    backward_part_complete [OF wf ws T, of s e g]
  by blast

section \<open>Claims about forward filtering, backward sampling\<close>

text \<open>
  C9. For an observation sequence of length 1 (and a model whose \<open>logPi\<close> has an entry
  for every state), \<open>_sampleHiddenStateTrajectory\<close> is exactly one categorical draw
  from the normalised column 0 of \<open>log_alpha\<close>, whose entries are
  \<open>logPi[i] + log_emission(i, o[0])\<close>: the forward recursion and the backward loop
  contribute nothing (the transition matrix is not read), no index \<open>t - 1\<close> is
  accessed and no IndexError arises; the only errors are those of the log-sum-exp
  and of the draw itself. The normalised column is the probability vector
  \<open>exp(x\<^sub>i) / \<Sum>\<^sub>j exp(x\<^sub>j)\<close>: when the entries \<open>x\<^sub>i\<close> of the column are finite or
  \<open>-inf\<close> and one of them is finite (\<open>exp(-inf) = 0\<close>), the log-sum-exp is
  \<open>ln (\<Sum>\<^sub>j exp(x\<^sub>j))\<close> and the call is the single draw with that vector.
\<close>

theorem single_observation_sampled_directly:
  assumes "nstates (deref w (model self)) \<le> length (logPi (deref w (model self)))"
  shows "(let m = deref w (model self);
              column0 = map (\<lambda>i. logPi m ! i + log_emission_probability e m i ob) [0..<nstates m]
          in sampleHiddenStateTrajectory e self [ob] w =
               bindE (logsumexp column0) (\<lambda>l.
               bindE (choice e (nstates m) (exp_minus column0 l) (shd (np_random w))) (\<lambda>k.
                 Inr ([k], w\<lparr>np_random := stl (np_random w)\<rparr>)))
           \<and> ((\<forall>v\<in>set column0. isfinite v \<or> v = NInf) \<and> (\<exists>v\<in>set column0. isfinite v) \<longrightarrow>
                 logsumexp column0 = Inr (Fin (ln (\<Sum>u\<leftarrow>column0. weight u)))
                 \<and> exp_minus column0 (Fin (ln (\<Sum>u\<leftarrow>column0. weight u)))
                     = map (\<lambda>v. Fin (weight v / (\<Sum>u\<leftarrow>column0. weight u))) column0
                 \<and> sampleHiddenStateTrajectory e self [ob] w =
                     bindE (choice e (nstates m)
                              (map (\<lambda>v. Fin (weight v / (\<Sum>u\<leftarrow>column0. weight u))) column0)
                              (shd (np_random w)))
                       (\<lambda>k. Inr ([k], w\<lparr>np_random := stl (np_random w)\<rparr>)))
           \<and> (\<forall>rs. column0 = map Fin rs \<and> rs \<noteq> [] \<longrightarrow>
                 sampleHiddenStateTrajectory e self [ob] w =
                   bindE (choice e (nstates m)
                            (map (\<lambda>r. Fin (exp r / (\<Sum>q\<leftarrow>rs. exp q))) rs) (shd (np_random w)))
                     (\<lambda>k. Inr ([k], w\<lparr>np_random := stl (np_random w)\<rparr>))))"
proof -
  let ?m = "deref w (model self)"
  let ?c = "map (\<lambda>i. logPi ?m ! i + log_emission_probability e ?m i ob) [0..<nstates ?m]"
  let ?a = "\<lparr>shape0 = nstates ?m, shape1 = 1,
                  rows = map (\<lambda>i. [logPi ?m ! i + log_emission_probability e ?m i ob])
                           [0..<nstates ?m]\<rparr>"
  let ?S = "\<Sum>u\<leftarrow>?c. weight u"
  let ?run = "sampleHiddenStateTrajectory e self [ob] w"
  let ?draw = "\<lambda>p. bindE (choice e (nstates ?m) p (shd (np_random w)))
                       (\<lambda>k. Inr ([k], w\<lparr>np_random := stl (np_random w)\<rparr>))"
  have r: "map (\<lambda>r. r ! 0) (rows ?a) = ?c" by (simp add: comp_def)
  have b: "backward_part e ?m ?a 1 (np_random w) =
     bindE (logsumexp ?c) (\<lambda>l.
     bindE (choice e (nstates ?m) (exp_minus ?c l) (shd (np_random w))) (\<lambda>k.
       Inr ([k], stl (np_random w))))"
    using backward_part_single [of ?a e ?m "np_random w"] unfolding r by simp
  have p1: "?run = bindE (logsumexp ?c) (\<lambda>l. ?draw (exp_minus ?c l))"
  proof (cases "logsumexp ?c")
    case (Inl err)
    then show ?thesis
      by (simp add: sampleHiddenStateTrajectory_def forward_part_single [OF assms] Let_def
          b [unfolded One_nat_def])
  next
    case l: (Inr l)
    show ?thesis
    proof (cases "choice e (nstates ?m) (exp_minus ?c l) (shd (np_random w))")
      case (Inl err)
      then show ?thesis
        using l by (simp add: sampleHiddenStateTrajectory_def forward_part_single [OF assms] Let_def
          b [unfolded One_nat_def])
    next
      case (Inr k)
      then show ?thesis
        using l by (simp add: sampleHiddenStateTrajectory_def forward_part_single [OF assms] Let_def
          b [unfolded One_nat_def])
    qed
  qed
  have p2: "logsumexp ?c = Inr (Fin (ln ?S))
            \<and> exp_minus ?c (Fin (ln ?S)) = map (\<lambda>v. Fin (weight v / ?S)) ?c
            \<and> ?run = ?draw (map (\<lambda>v. Fin (weight v / ?S)) ?c)"
    if lw: "\<forall>v\<in>set ?c. isfinite v \<or> v = NInf" and fin: "\<exists>v\<in>set ?c. isfinite v"
  proof -
    have l: "logsumexp ?c = Inr (Fin (ln ?S))" by (rule logsumexp_log_weights [OF lw fin])
    have n: "exp_minus ?c (Fin (ln ?S)) = map (\<lambda>v. Fin (weight v / ?S)) ?c"
      by (rule normalised_log_weights [OF l lw fin])
    have "?run = ?draw (exp_minus ?c (Fin (ln ?S)))" unfolding p1 l by simp
    then show ?thesis using l n by simp
  qed
  have p3: "?run = ?draw (map (\<lambda>r. Fin (exp r / (\<Sum>q\<leftarrow>rs. exp q))) rs)"
    if c: "?c = map Fin rs" and ne: "rs \<noteq> []" for rs
  proof -
    have "\<exists>l. logsumexp (map Fin rs) = Inr l" using ne by (simp add: logsumexp_Fin)
    then obtain l where l: "logsumexp (map Fin rs) = Inr l" by blast
    have "?run = ?draw (exp_minus (map Fin rs) l)" unfolding p1 c l by simp
    then show ?thesis unfolding normalised_finite [OF l] .
  qed
  show ?thesis unfolding Let_def using p1 p2 p3 by blast
qed

theorem single_observation_sampled_directly_witness:
  "nstates (deref ex_world (model ex_bhmm)) \<le> length (logPi (deref ex_world (model ex_bhmm)))
   \<and> map (\<lambda>i. logPi (deref ex_world (model ex_bhmm)) ! i
                + log_emission_probability ex_env (deref ex_world (model ex_bhmm)) i (7 :: nat))
         [0..<nstates (deref ex_world (model ex_bhmm))]
       = map Fin [- ln 2, - ln 2]
   \<and> isfinite (Fin (- ln 2))
   \<and> [- ln 2, - ln (2 :: real)] \<noteq> []
   \<and> map (\<lambda>r. Fin (exp r / (\<Sum>q\<leftarrow>[- ln 2, - ln (2 :: real)]. exp q))) [- ln 2, - ln 2]
       = [Fin (1 / 2), Fin (1 / 2)]
   \<and> sampleHiddenStateTrajectory ex_env ex_bhmm [7] ex_world
       = bindE (choice ex_env 2 [Fin (1 / 2), Fin (1 / 2)] (shd (np_random ex_world)))
           (\<lambda>k. Inr ([k], ex_world\<lparr>np_random := stl (np_random ex_world)\<rparr>))
   \<and> sampleHiddenStateTrajectory ex_env ex_bhmm [7] ex_world
       = Inr ([0], ex_world\<lparr>np_random := 1 ## sconst 0\<rparr>)"
proof -
  let ?m = "deref ex_world (model ex_bhmm)"
  have h: "nstates ?m \<le> length (logPi ?m)" by (simp add: ex_defs deref_def)
  have n: "nstates ?m = 2" by (simp add: ex_defs deref_def)
  have c: "map (\<lambda>i. logPi ?m ! i + log_emission_probability ex_env ?m i (7 :: nat)) [0..<nstates ?m]
             = map Fin [- ln 2, - ln 2]"
    by (simp add: ex_defs deref_def plus_float64_def upt_conv_Cons numeral_2_eq_2)
  have p: "map (\<lambda>r. Fin (exp r / (\<Sum>q\<leftarrow>[- ln 2, - ln (2 :: real)]. exp q))) [- ln 2, - ln 2]
             = [Fin (1 / 2), Fin (1 / 2)]"
    by (simp add: exp_minus)
  have ne: "[- ln 2, - ln (2 :: real)] \<noteq> []" by simp
  from single_observation_sampled_directly [OF h, of ex_env 7, unfolded Let_def]
  have "\<forall>rs. map (\<lambda>i. logPi ?m ! i + log_emission_probability ex_env ?m i (7 :: nat))
                 [0..<nstates ?m] = map Fin rs \<and> rs \<noteq> [] \<longrightarrow>
              sampleHiddenStateTrajectory ex_env ex_bhmm [7] ex_world =
                bindE (choice ex_env (nstates ?m)
                        (map (\<lambda>r. Fin (exp r / (\<Sum>q\<leftarrow>rs. exp q))) rs) (shd (np_random ex_world)))
                  (\<lambda>k. Inr ([k], ex_world\<lparr>np_random := stl (np_random ex_world)\<rparr>))"
    by blast
  from this [rule_format, OF conjI [OF c ne]]
  have run: "sampleHiddenStateTrajectory ex_env ex_bhmm [7] ex_world
       = bindE (choice ex_env 2 [Fin (1 / 2), Fin (1 / 2)] (shd (np_random ex_world)))
           (\<lambda>k. Inr ([k], ex_world\<lparr>np_random := stl (np_random ex_world)\<rparr>))"
    unfolding p n .
  have v: "bindE (choice ex_env 2 [Fin (1 / 2), Fin (1 / 2)] (shd (np_random ex_world)))
           (\<lambda>k. Inr ([k], ex_world\<lparr>np_random := stl (np_random ex_world)\<rparr>))
         = Inr ([0], ex_world\<lparr>np_random := 1 ## sconst 0\<rparr>)"
    by (simp add: ex_env_def ex_world_def)
  show ?thesis using h c p ne run v by simp
qed

text \<open>
  C3. For every observation sequence of length \<open>T \<ge> 1\<close> and every well-formed model,
  the forward part returns an array \<open>log_alpha\<close> of shape \<open>(nstates, T)\<close> with
  \<open>log_alpha[i,0] = logPi[i] + log_emission(i, o[0])\<close> for every state \<open>i\<close> and, for
  every \<open>t\<close> in \<open>1..T-1\<close> and every state \<open>j\<close>,
  \<open>log_alpha[j,t] = logsumexp\<^sub>k (log_alpha[k,t-1] + logTij[k,j]) + log_emission(j, o[t])\<close>.
  The log-sum-exp is the shifted one: on finite arguments it subtracts their maximum
  before exponentiating (so that no exponent is positive) and adds it back after the
  logarithm, which is the logarithm of the sum of the exponentials.
\<close>

theorem forward_pass_recurrence:
  assumes "hmm_wf m" and "o_t \<noteq> []"
  shows "\<exists>log_alpha.
     forward_part e m o_t = Inr log_alpha
     \<and> shape0 log_alpha = nstates m \<and> shape1 log_alpha = length o_t
     \<and> (\<forall>i<nstates m.
          elem log_alpha i 0 = logPi m ! i + log_emission_probability e m i (o_t ! 0))
     \<and> (\<forall>t j. 1 \<le> t \<and> t < length o_t \<and> j < nstates m \<longrightarrow>
          (\<exists>l. logsumexp (map (\<lambda>k. elem log_alpha k (t - 1) + elem (logTij m) k j)
                           [0..<nstates m]) = Inr l
             \<and> elem log_alpha j t = l + log_emission_probability e m j (o_t ! t)))
     \<and> (\<forall>rs. rs \<noteq> [] \<longrightarrow>
          logsumexp (map Fin rs)
            = Inr (Fin (ln (\<Sum>r\<leftarrow>rs. exp (r - Max (set rs))) + Max (set rs)))
          \<and> (\<forall>r\<in>set rs. r - Max (set rs) \<le> 0)
          \<and> ln (\<Sum>r\<leftarrow>rs. exp (r - Max (set rs))) + Max (set rs) = ln (\<Sum>r\<leftarrow>rs. exp r))"
proof -
  from forward_part_total [OF assms, of e]
  obtain a where a: "forward_part e m o_t = Inr a"
      "well_shaped a (nstates m) (length o_t)"
      "\<forall>i<nstates m. initialised e m o_t a i"
      "\<forall>t j. 0 < t \<and> t < length o_t \<and> j < nstates m \<longrightarrow> recursed e m o_t a j t"
    by blast
  have s: "shape0 a = nstates m \<and> shape1 a = length o_t"
    using a(2) by (simp add: well_shaped_def)
  have i: "\<forall>i<nstates m.
          elem a i 0 = logPi m ! i + log_emission_probability e m i (o_t ! 0)"
    using a(3) by (simp add: initialised_def)
  have r: "\<forall>t j. 1 \<le> t \<and> t < length o_t \<and> j < nstates m \<longrightarrow>
          (\<exists>l. logsumexp (map (\<lambda>k. elem a k (t - 1) + elem (logTij m) k j)
                           [0..<nstates m]) = Inr l
             \<and> elem a j t = l + log_emission_probability e m j (o_t ! t))"
  proof (intro allI impI)
    fix t j assume h: "1 \<le> t \<and> t < length o_t \<and> j < nstates m"
    then have "recursed e m o_t a j t" using a(4) by simp
    then show "\<exists>l. logsumexp (map (\<lambda>k. elem a k (t - 1) + elem (logTij m) k j)
                           [0..<nstates m]) = Inr l
             \<and> elem a j t = l + log_emission_probability e m j (o_t ! t)"
      unfolding recursed_def .
  qed
  have l: "\<forall>rs. rs \<noteq> [] \<longrightarrow>
          logsumexp (map Fin rs)
            = Inr (Fin (ln (\<Sum>r\<leftarrow>rs. exp (r - Max (set rs))) + Max (set rs)))
          \<and> (\<forall>r\<in>set rs. r - Max (set rs) \<le> 0)
          \<and> ln (\<Sum>r\<leftarrow>rs. exp (r - Max (set rs))) + Max (set rs) = ln (\<Sum>r\<leftarrow>rs. exp r)"
    using logsumexp_Fin logsumexp_Fin_exact shifted_nonpos by blast
  show ?thesis using a(1) s i r l by blast
qed

theorem forward_pass_recurrence_witness:
  "hmm_wf (deref ex_world 0) \<and> [7, 8 :: nat] \<noteq> []
   \<and> (\<exists>log_alpha.
        forward_part ex_env (deref ex_world 0) [7, 8] = Inr log_alpha
        \<and> shape0 log_alpha = 2 \<and> shape1 log_alpha = 2
        \<and> elem log_alpha 1 0 = Fin (- ln 2)
        \<and> (\<exists>l. logsumexp [elem log_alpha 0 0 + Fin (- ln 2), elem log_alpha 1 0 + Fin (- ln 2)]
                  = Inr l
              \<and> elem log_alpha 1 1 = l + Fin 0))"
proof -
  have wf: "hmm_wf (deref ex_world 0)"
    by (simp add: hmm_wf_def well_shaped_def ex_defs deref_def less_Suc_eq numeral_2_eq_2)
  have ne: "[7, 8 :: nat] \<noteq> []" by simp
  from forward_pass_recurrence [OF wf ne, of ex_env]
  obtain a where a: "forward_part ex_env (deref ex_world 0) [7, 8] = Inr a"
    "shape0 a = nstates (deref ex_world 0)" "shape1 a = length [7, 8 :: nat]"
    "\<forall>i<nstates (deref ex_world 0).
          elem a i 0 = logPi (deref ex_world 0) ! i
                         + log_emission_probability ex_env (deref ex_world 0) i ([7, 8] ! 0)"
    "\<forall>t j. 1 \<le> t \<and> t < length [7, 8 :: nat] \<and> j < nstates (deref ex_world 0) \<longrightarrow>
          (\<exists>l. logsumexp (map (\<lambda>k. elem a k (t - 1) + elem (logTij (deref ex_world 0)) k j)
                           [0..<nstates (deref ex_world 0)]) = Inr l
             \<and> elem a j t = l + log_emission_probability ex_env (deref ex_world 0) j ([7, 8] ! t))"
    by blast
  have n: "nstates (deref ex_world 0) = 2" by (simp add: ex_defs deref_def)
  have s: "shape0 a = 2 \<and> shape1 a = 2" using a(2,3) n by simp
  have i: "elem a 1 0 = Fin (- ln 2)"
    using a(4) [rule_format, of 1] n
    by (simp add: ex_defs deref_def plus_float64_def)
  from a(5) [rule_format, of 1 1] n
  obtain l where l: "logsumexp (map (\<lambda>k. elem a k (1 - 1) + elem (logTij (deref ex_world 0)) k 1)
                           [0..<nstates (deref ex_world 0)]) = Inr l"
      "elem a 1 1 = l + log_emission_probability ex_env (deref ex_world 0) 1 ([7, 8] ! 1)"
    by auto
  have m: "map (\<lambda>k. elem a k (1 - 1) + elem (logTij (deref ex_world 0)) k 1)
                           [0..<nstates (deref ex_world 0)]
           = [elem a 0 0 + Fin (- ln 2), elem a 1 0 + Fin (- ln 2)]"
    by (simp add: n ex_defs deref_def elem_def upt_conv_Cons numeral_2_eq_2)
  have "\<exists>l. logsumexp [elem a 0 0 + Fin (- ln 2), elem a 1 0 + Fin (- ln 2)] = Inr l
              \<and> elem a 1 1 = l + Fin 0"
    using l unfolding m by (simp add: ex_defs)
  then show ?thesis using wf a(1) s i by blast
qed

text \<open>
  C2 (as stated, refuted). An observation with probability 0 in every state makes
  every entry of the forward column \<open>-inf\<close>; the log-sum-exp of the column is \<open>-inf\<close>
  and the normalised vector is \<open>[nan, nan]\<close>. The function raises nothing: it makes
  the draw with that vector and returns a trajectory.
\<close>

theorem degenerate_likelihood_not_detected:
  "forward_part ex_env_degenerate (deref ex_world (model ex_bhmm)) [7]
     = Inr \<lparr>shape0 = 2, shape1 = 1, rows = [[NInf], [NInf]]\<rparr>
   \<and> logsumexp [NInf, NInf] = Inr NInf
   \<and> exp_minus [NInf, NInf] NInf = [NaN, NaN]
   \<and> sampleHiddenStateTrajectory ex_env_degenerate ex_bhmm [7] ex_world
       = Inr ([0], ex_world\<lparr>np_random := 1 ## sconst 0\<rparr>)"
  by (simp add: ex_env_degenerate_def ex_defs sampler_defs upt_conv_Cons numeral_2_eq_2 Let_def)

text \<open>
  C2 (amended). \<open>_sampleHiddenStateTrajectory\<close> makes no degenerate-likelihood check.
  For a well-formed model and \<open>T \<ge> 1\<close> the forward pass and the log-sum-exp of the
  last column succeed and the first categorical draw is made with the normalised
  last column, all of whose entries are \<open>nan\<close> when the last column is all \<open>-inf\<close>;
  an exception of that draw is the outcome of the call, and when every draw yields
  a state the call returns a trajectory of length \<open>T\<close>.
\<close>

theorem degenerate_column_reaches_draw:
  fixes e :: "('o, 'p, 'u) env" and w :: "('p, 'u) world"
  assumes "m = deref w (model self)" and "hmm_wf m" and "o_t \<noteq> []"
  shows "\<exists>log_alpha l.
     forward_part e m o_t = Inr log_alpha
     \<and> logsumexp (last_log_p m log_alpha (length o_t)) = Inr l
     \<and> (last_log_p m log_alpha (length o_t) = replicate (nstates m) NInf \<longrightarrow>
          exp_minus (last_log_p m log_alpha (length o_t)) l = replicate (nstates m) NaN)
     \<and> (\<forall>err. choice e (nstates m) (exp_minus (last_log_p m log_alpha (length o_t)) l)
                 (shd (np_random w)) = Inl err \<longrightarrow>
              sampleHiddenStateTrajectory e self o_t w = Inl err)
     \<and> ((\<forall>p u. \<exists>k<nstates m. choice e (nstates m) p u = Inr k) \<longrightarrow>
          (\<exists>s w'. sampleHiddenStateTrajectory e self o_t w = Inr (s, w')
                 \<and> length s = length o_t))"
proof -
  let ?T = "length o_t" and ?n = "nstates m"
  have wf: "hmm_wf (deref w (model self))" using assms(1,2) by simp
  from sampleHiddenStateTrajectory_wf [OF wf assms(3), of e]
  obtain a l where a: "forward_part e m o_t = Inr a"
      "well_shaped a ?n ?T"
      "logsumexp (last_log_p m a ?T) = Inr l"
      "sampleHiddenStateTrajectory e self o_t w
               = bindE (backward_part e m a ?T (np_random w))
                   (\<lambda>(s_t, g). Inr (s_t, w\<lparr>np_random := g\<rparr>))"
    unfolding assms(1) by blast
  have T: "0 < ?T" using assms(3) by simp
  have n: "0 < ?n" using assms(2) by (simp add: hmm_wf_def)
  have p1: "exp_minus (last_log_p m a ?T) l = replicate ?n NaN"
    if d: "last_log_p m a ?T = replicate ?n NInf"
  proof -
    have "l = NInf" using a(3) logsumexp_all_NInf [OF n] unfolding d by simp
    then show ?thesis unfolding d by (simp add: exp_minus_all_NInf)
  qed
  have p2: "sampleHiddenStateTrajectory e self o_t w = Inl err"
    if "choice e ?n (exp_minus (last_log_p m a ?T) l) (shd (np_random w)) = Inl err" for err
    unfolding a(4) backward_part_draws [OF assms(2) a(2) T] using a(3) that by simp
  have p3: "\<exists>s w'. sampleHiddenStateTrajectory e self o_t w = Inr (s, w') \<and> length s = ?T"
    if ch: "\<forall>p u. \<exists>k<?n. choice e ?n p u = Inr k"
  proof -
    from backward_part_total [OF assms(2) a(2) T ch, of "np_random w"]
    obtain s g' where b: "backward_part e m a ?T (np_random w) = Inr (s, g')" by blast
    from backward_part_partial [OF assms(2) a(2) T b] have "length s = ?T" by simp
    then show ?thesis unfolding a(4) using b by simp
  qed
  show ?thesis using a(1,3) p1 p2 p3 by blast
qed

theorem degenerate_column_reaches_draw_witness:
  "hmm_wf (deref ex_world (model ex_bhmm)) \<and> [7 :: nat] \<noteq> []
   \<and> (\<forall>p u. \<exists>k<nstates (deref ex_world (model ex_bhmm)).
          choice ex_env_degenerate (nstates (deref ex_world (model ex_bhmm))) p u = Inr k)
   \<and> last_log_p (deref ex_world (model ex_bhmm))
        \<lparr>shape0 = 2, shape1 = 1, rows = [[NInf], [NInf]]\<rparr> (length [7 :: nat])
       = replicate (nstates (deref ex_world (model ex_bhmm))) NInf
   \<and> exp_minus (last_log_p (deref ex_world (model ex_bhmm))
        \<lparr>shape0 = 2, shape1 = 1, rows = [[NInf], [NInf]]\<rparr> (length [7 :: nat])) NInf
       = replicate (nstates (deref ex_world (model ex_bhmm))) NaN
   \<and> (\<exists>s w'. sampleHiddenStateTrajectory ex_env_degenerate ex_bhmm [7] ex_world = Inr (s, w')
         \<and> length s = 1)"
proof -
  let ?m = "deref ex_world (model ex_bhmm)"
  let ?a = "\<lparr>shape0 = 2, shape1 = 1, rows = [[NInf], [NInf]]\<rparr> :: float64 ndarray2"
  have wf: "hmm_wf ?m"
    by (simp add: hmm_wf_def well_shaped_def ex_defs deref_def less_Suc_eq numeral_2_eq_2)
  have ne: "[7 :: nat] \<noteq> []" by simp
  have n: "nstates ?m = 2" by (simp add: ex_defs deref_def)
  have ch: "\<forall>p u. \<exists>k<nstates ?m. choice ex_env_degenerate (nstates ?m) p u = Inr k"
    unfolding n by (simp add: ex_env_def ex_env_degenerate_def)
  have f: "forward_part ex_env_degenerate ?m [7] = Inr ?a"
    by (simp add: ex_env_degenerate_def ex_defs sampler_defs upt_conv_Cons numeral_2_eq_2 Let_def)
  have d: "last_log_p ?m ?a (length [7 :: nat]) = replicate (nstates ?m) NInf"
    by (simp add: last_log_p_def elem_def n upt_conv_Cons numeral_2_eq_2)
  from degenerate_column_reaches_draw [OF refl wf ne, of ex_env_degenerate]
  obtain a' l where f': "forward_part ex_env_degenerate ?m [7] = Inr a'"
    and l': "logsumexp (last_log_p ?m a' (length [7 :: nat])) = Inr l"
    and x': "last_log_p ?m a' (length [7 :: nat]) = replicate (nstates ?m) NInf \<longrightarrow>
          exp_minus (last_log_p ?m a' (length [7 :: nat])) l = replicate (nstates ?m) NaN"
    and t: "(\<forall>p u. \<exists>k<nstates ?m. choice ex_env_degenerate (nstates ?m) p u = Inr k) \<longrightarrow>
          (\<exists>s w'. sampleHiddenStateTrajectory ex_env_degenerate ex_bhmm [7] ex_world = Inr (s, w')
                 \<and> length s = length [7 :: nat])"
    by blast
  have aa: "a' = ?a" using f f' by simp
  note l = l' [unfolded aa] and x = x' [unfolded aa]
  have "l = NInf" using l logsumexp_all_NInf [of "nstates ?m"] n unfolding d by simp
  then show ?thesis using wf ne ch d x t by simp
qed

text \<open>
  C4. For a well-formed model and \<open>T \<ge> 1\<close> the forward pass yields \<open>log_alpha\<close>, and the
  function returns the trajectory \<open>s\<close> exactly when \<open>s\<close> has length \<open>T\<close>, \<open>s[T-1]\<close> is the
  categorical draw (with the first variate of the generator) from
  \<open>exp(log_alpha[:,T-1] - logsumexp(log_alpha[:,T-1]))\<close>, and for every \<open>t\<close> from \<open>T-2\<close>
  down to 0, \<open>s[t+1]\<close> is a state and \<open>s[t]\<close> is the categorical draw (with the next
  variate) from \<open>exp(log_p - logsumexp(log_p))\<close> where
  \<open>log_p[i] = log_alpha[i,t] + logTij[i, s[t+1]]\<close>; the generator has then advanced by
  exactly \<open>T\<close> variates, one per draw, and nothing else is written. An exception of
  the first draw is the outcome of the call, and the call returns whenever every draw
  yields a state. The vector \<open>exp(x - logsumexp(x))\<close> is the probability vector
  \<open>exp(x\<^sub>i) / \<Sum>\<^sub>j exp(x\<^sub>j)\<close>: for entries that are finite or \<open>-inf\<close>, one of them finite
  (\<open>exp(-inf) = 0\<close>), the log-sum-exp is \<open>ln (\<Sum>\<^sub>j exp(x\<^sub>j))\<close> and the exponentiated
  difference is that quotient.
\<close>

theorem backward_pass_draws:
  fixes e :: "('o, 'p, 'u) env" and w :: "('p, 'u) world"
  assumes "m = deref w (model self)" and "hmm_wf m" and "o_t \<noteq> []"
  shows "(\<exists>log_alpha.
            forward_part e m o_t = Inr log_alpha
            \<and> (\<forall>s w'. sampleHiddenStateTrajectory e self o_t w = Inr (s, w') \<longleftrightarrow>
                  length s = length o_t
                  \<and> w' = w\<lparr>np_random := sdrop (length o_t) (np_random w)\<rparr>
                  \<and> (\<exists>l. logsumexp (map (\<lambda>i. elem log_alpha i (length o_t - 1)) [0..<nstates m])
                           = Inr l
                       \<and> choice e (nstates m)
                            (exp_minus (map (\<lambda>i. elem log_alpha i (length o_t - 1)) [0..<nstates m]) l)
                            (np_random w !! 0)
                          = Inr (s ! (length o_t - 1)))
                  \<and> (\<forall>t. t + 1 < length o_t \<longrightarrow>
                        s ! (t + 1) < nstates m
                        \<and> (\<exists>l. logsumexp (map (\<lambda>i. elem log_alpha i t
                                                     + elem (logTij m) i (s ! (t + 1)))
                                            [0..<nstates m]) = Inr l
                             \<and> choice e (nstates m)
                                  (exp_minus (map (\<lambda>i. elem log_alpha i t
                                                         + elem (logTij m) i (s ! (t + 1)))
                                                [0..<nstates m]) l)
                                  (np_random w !! (length o_t - 1 - t))
                                = Inr (s ! t))))
            \<and> (\<forall>l err.
                  logsumexp (map (\<lambda>i. elem log_alpha i (length o_t - 1)) [0..<nstates m]) = Inr l
                  \<and> choice e (nstates m)
                       (exp_minus (map (\<lambda>i. elem log_alpha i (length o_t - 1)) [0..<nstates m]) l)
                       (np_random w !! 0)
                     = Inl err
                  \<longrightarrow> sampleHiddenStateTrajectory e self o_t w = Inl err))
       \<and> ((\<forall>p u. \<exists>k<nstates m. choice e (nstates m) p u = Inr k) \<longrightarrow>
            (\<exists>s w'. sampleHiddenStateTrajectory e self o_t w = Inr (s, w')))
       \<and> (\<forall>log_p. (\<forall>v\<in>set log_p. isfinite v \<or> v = NInf) \<and> (\<exists>v\<in>set log_p. isfinite v) \<longrightarrow>
             logsumexp log_p = Inr (Fin (ln (\<Sum>u\<leftarrow>log_p. weight u)))
             \<and> exp_minus log_p (Fin (ln (\<Sum>u\<leftarrow>log_p. weight u)))
                 = map (\<lambda>v. Fin (weight v / (\<Sum>u\<leftarrow>log_p. weight u))) log_p)
       \<and> (\<forall>rs. rs \<noteq> [] \<longrightarrow>
             logsumexp (map Fin rs) = Inr (Fin (ln (\<Sum>q\<leftarrow>rs. exp q)))
             \<and> exp_minus (map Fin rs) (Fin (ln (\<Sum>q\<leftarrow>rs. exp q)))
                 = map (\<lambda>r. Fin (exp r / (\<Sum>q\<leftarrow>rs. exp q))) rs)"
proof -
  let ?T = "length o_t" and ?n = "nstates m" and ?g = "np_random w"
  let ?run = "sampleHiddenStateTrajectory e self o_t w"
  have wf: "hmm_wf (deref w (model self))" using assms(1,2) by simp
  from sampleHiddenStateTrajectory_wf [OF wf assms(3), of e]
  obtain a where a: "forward_part e m o_t = Inr a"
      "well_shaped a ?n ?T"
      "?run = bindE (backward_part e m a ?T ?g) (\<lambda>(s_t, g). Inr (s_t, w\<lparr>np_random := g\<rparr>))"
    unfolding assms(1) by blast
  have T: "0 < ?T" using assms(3) by simp
  have run_iff: "?run = Inr (s, w') \<longleftrightarrow>
                   backward_part e m a ?T ?g = Inr (s, sdrop ?T ?g)
                   \<and> w' = w\<lparr>np_random := sdrop ?T ?g\<rparr>" for s w'
  proof
    assume "?run = Inr (s, w')"
    then obtain g' where b: "backward_part e m a ?T ?g = Inr (s, g')"
      and w': "w' = w\<lparr>np_random := g'\<rparr>"
      unfolding a(3) by (auto simp: bindE_eq_Inr)
    from backward_part_partial [OF assms(2) a(2) T b] have "g' = sdrop ?T ?g" by simp
    then show "backward_part e m a ?T ?g = Inr (s, sdrop ?T ?g)
                 \<and> w' = w\<lparr>np_random := sdrop ?T ?g\<rparr>"
      using b w' by simp
  next
    assume "backward_part e m a ?T ?g = Inr (s, sdrop ?T ?g)
              \<and> w' = w\<lparr>np_random := sdrop ?T ?g\<rparr>"
    then show "?run = Inr (s, w')" unfolding a(3) by simp
  qed
  have p1: "?run = Inr (s, w') \<longleftrightarrow>
              length s = ?T \<and> w' = w\<lparr>np_random := sdrop ?T ?g\<rparr>
              \<and> (\<exists>l. logsumexp (map (\<lambda>i. elem a i (?T - 1)) [0..<?n]) = Inr l
                   \<and> choice e ?n (exp_minus (map (\<lambda>i. elem a i (?T - 1)) [0..<?n]) l) (?g !! 0)
                      = Inr (s ! (?T - 1)))
              \<and> (\<forall>t. t + 1 < ?T \<longrightarrow>
                    s ! (t + 1) < ?n
                    \<and> (\<exists>l. logsumexp (map (\<lambda>i. elem a i t + elem (logTij m) i (s ! (t + 1)))
                                        [0..<?n]) = Inr l
                         \<and> choice e ?n
                              (exp_minus (map (\<lambda>i. elem a i t + elem (logTij m) i (s ! (t + 1)))
                                            [0..<?n]) l)
                              (?g !! (?T - 1 - t))
                            = Inr (s ! t)))" for s w'
    unfolding run_iff backward_part_exact [OF assms(2) a(2) T]
      drawn_last_def drawn_at_def last_log_p_def step_log_p_def
    by auto
  have p2: "?run = Inl err"
    if "logsumexp (map (\<lambda>i. elem a i (?T - 1)) [0..<?n]) = Inr l
        \<and> choice e ?n (exp_minus (map (\<lambda>i. elem a i (?T - 1)) [0..<?n]) l) (?g !! 0) = Inl err"
    for l err
    using that unfolding a(3) backward_part_draws [OF assms(2) a(2) T] last_log_p_def
    by simp
  have p3: "\<exists>s w'. ?run = Inr (s, w')"
    if ch: "\<forall>p u. \<exists>k<?n. choice e ?n p u = Inr k"
  proof -
    from backward_part_total [OF assms(2) a(2) T ch, of ?g]
    obtain s g' where "backward_part e m a ?T ?g = Inr (s, g')" by blast
    then show ?thesis unfolding a(3) by simp
  qed
  have p4: "logsumexp log_p = Inr (Fin (ln (\<Sum>u\<leftarrow>log_p. weight u)))
            \<and> exp_minus log_p (Fin (ln (\<Sum>u\<leftarrow>log_p. weight u)))
                = map (\<lambda>v. Fin (weight v / (\<Sum>u\<leftarrow>log_p. weight u))) log_p"
    if "(\<forall>v\<in>set log_p. isfinite v \<or> v = NInf) \<and> (\<exists>v\<in>set log_p. isfinite v)" for log_p
  proof -
    from that have lw: "\<forall>v\<in>set log_p. isfinite v \<or> v = NInf" and fin: "\<exists>v\<in>set log_p. isfinite v"
      by simp_all
    show ?thesis
      using logsumexp_log_weights [OF lw fin]
        normalised_log_weights [OF logsumexp_log_weights [OF lw fin] lw fin]
      by simp
  qed
  have p5: "logsumexp (map Fin rs) = Inr (Fin (ln (\<Sum>q\<leftarrow>rs. exp q)))
            \<and> exp_minus (map Fin rs) (Fin (ln (\<Sum>q\<leftarrow>rs. exp q)))
                = map (\<lambda>r. Fin (exp r / (\<Sum>q\<leftarrow>rs. exp q))) rs"
    if "rs \<noteq> []" for rs
  proof -
    have l: "logsumexp (map Fin rs) = Inr (Fin (ln (\<Sum>q\<leftarrow>rs. exp q)))"
      using that by (simp add: logsumexp_Fin logsumexp_Fin_exact)
    show ?thesis using l normalised_finite [OF l] by simp
  qed
  have "\<exists>log_alpha. forward_part e m o_t = Inr log_alpha
            \<and> (\<forall>s w'. ?run = Inr (s, w') \<longleftrightarrow>
                  length s = ?T \<and> w' = w\<lparr>np_random := sdrop ?T ?g\<rparr>
                  \<and> (\<exists>l. logsumexp (map (\<lambda>i. elem log_alpha i (?T - 1)) [0..<?n]) = Inr l
                       \<and> choice e ?n
                            (exp_minus (map (\<lambda>i. elem log_alpha i (?T - 1)) [0..<?n]) l) (?g !! 0)
                          = Inr (s ! (?T - 1)))
                  \<and> (\<forall>t. t + 1 < ?T \<longrightarrow>
                        s ! (t + 1) < ?n
                        \<and> (\<exists>l. logsumexp (map (\<lambda>i. elem log_alpha i t
                                                     + elem (logTij m) i (s ! (t + 1)))
                                            [0..<?n]) = Inr l
                             \<and> choice e ?n
                                  (exp_minus (map (\<lambda>i. elem log_alpha i t
                                                         + elem (logTij m) i (s ! (t + 1)))
                                                [0..<?n]) l)
                                  (?g !! (?T - 1 - t))
                                = Inr (s ! t))))
            \<and> (\<forall>l err.
                  logsumexp (map (\<lambda>i. elem log_alpha i (?T - 1)) [0..<?n]) = Inr l
                  \<and> choice e ?n
                       (exp_minus (map (\<lambda>i. elem log_alpha i (?T - 1)) [0..<?n]) l) (?g !! 0)
                     = Inl err
                  \<longrightarrow> ?run = Inl err)"
  proof (intro exI [of _ a] conjI allI impI)
    show "forward_part e m o_t = Inr a" by (rule a(1))
  next
    fix s w'
    show "?run = Inr (s, w') \<longleftrightarrow>
              length s = ?T \<and> w' = w\<lparr>np_random := sdrop ?T ?g\<rparr>
              \<and> (\<exists>l. logsumexp (map (\<lambda>i. elem a i (?T - 1)) [0..<?n]) = Inr l
                   \<and> choice e ?n (exp_minus (map (\<lambda>i. elem a i (?T - 1)) [0..<?n]) l) (?g !! 0)
                      = Inr (s ! (?T - 1)))
              \<and> (\<forall>t. t + 1 < ?T \<longrightarrow>
                    s ! (t + 1) < ?n
                    \<and> (\<exists>l. logsumexp (map (\<lambda>i. elem a i t + elem (logTij m) i (s ! (t + 1)))
                                        [0..<?n]) = Inr l
                         \<and> choice e ?n
                              (exp_minus (map (\<lambda>i. elem a i t + elem (logTij m) i (s ! (t + 1)))
                                            [0..<?n]) l)
                              (?g !! (?T - 1 - t))
                            = Inr (s ! t)))"
      by (rule p1)
  next
    fix l err
    assume "logsumexp (map (\<lambda>i. elem a i (?T - 1)) [0..<?n]) = Inr l
        \<and> choice e ?n (exp_minus (map (\<lambda>i. elem a i (?T - 1)) [0..<?n]) l) (?g !! 0) = Inl err"
    then show "?run = Inl err" by (rule p2)
  qed
  then show ?thesis using p3 p4 p5 by blast
qed

theorem backward_pass_draws_witness:
  "hmm_wf (deref ex_world (model ex_bhmm)) \<and> [7, 8 :: nat] \<noteq> []
   \<and> (\<forall>p u. \<exists>k<nstates (deref ex_world (model ex_bhmm)).
          choice ex_env (nstates (deref ex_world (model ex_bhmm))) p u = Inr k)
   \<and> sampleHiddenStateTrajectory ex_env ex_bhmm [7, 8] ex_world
       = Inr ([1, 0], ex_world\<lparr>np_random := sdrop 2 (np_random ex_world)\<rparr>)
   \<and> (\<exists>log_alpha.
         forward_part ex_env (deref ex_world (model ex_bhmm)) [7, 8] = Inr log_alpha
         \<and> (\<exists>l. logsumexp (map (\<lambda>i. elem log_alpha i 1) [0..<2]) = Inr l
              \<and> choice ex_env 2 (exp_minus (map (\<lambda>i. elem log_alpha i 1) [0..<2]) l) 0 = Inr 0)
         \<and> (\<exists>l. logsumexp (map (\<lambda>i. elem log_alpha i 0
                                      + elem (logTij (deref ex_world (model ex_bhmm))) i 0)
                             [0..<2]) = Inr l
              \<and> choice ex_env 2
                   (exp_minus (map (\<lambda>i. elem log_alpha i 0
                                          + elem (logTij (deref ex_world (model ex_bhmm))) i 0)
                                 [0..<2]) l) 1
                 = Inr 1))
   \<and> (isfinite (Fin 0) \<or> Fin 0 = NInf) \<and> (isfinite NInf \<or> NInf = NInf)
   \<and> (\<exists>v\<in>set [Fin 0, NInf]. isfinite v)
   \<and> logsumexp [Fin 0, NInf] = Inr (Fin 0)
   \<and> exp_minus [Fin 0, NInf] (Fin 0) = [Fin 1, Fin 0]
   \<and> [0, 0 :: real] \<noteq> []
   \<and> logsumexp [Fin 0, Fin 0] = Inr (Fin (ln 2))
   \<and> exp_minus [Fin 0, Fin 0] (Fin (ln 2)) = [Fin (1 / 2), Fin (1 / 2)]"
proof -
  let ?m = "deref ex_world (model ex_bhmm)"
  have wf: "hmm_wf ?m"
    by (simp add: hmm_wf_def well_shaped_def ex_defs deref_def less_Suc_eq numeral_2_eq_2)
  have ne: "[7, 8 :: nat] \<noteq> []" by simp
  have n: "nstates ?m = 2" by (simp add: ex_defs deref_def)
  have ch: "\<forall>p u. \<exists>k<nstates ?m. choice ex_env (nstates ?m) p u = Inr k"
    unfolding n by (simp add: ex_env_def)
  have g: "np_random ex_world !! 0 = 0" "np_random ex_world !! 1 = 1"
    by (simp_all add: ex_world_def)
  have run: "sampleHiddenStateTrajectory ex_env ex_bhmm [7, 8] ex_world
               = Inr ([1, 0], ex_world\<lparr>np_random := sconst 0\<rparr>)"
    by (simp add: ex_defs sampler_defs upt_conv_Cons numeral_2_eq_2 Let_def)
  have lw: "(\<forall>v\<in>set [Fin 0, NInf]. isfinite v \<or> v = NInf) \<and> (\<exists>v\<in>set [Fin 0, NInf]. isfinite v)"
    by simp
  have ne2: "[0, 0 :: real] \<noteq> []" by simp
  note bpd = backward_pass_draws [OF refl wf ne, of ex_env]
  from bpd [THEN conjunct1] obtain a where a: "forward_part ex_env ?m [7, 8] = Inr a"
    and iff: "\<And>s w'. sampleHiddenStateTrajectory ex_env ex_bhmm [7, 8] ex_world = Inr (s, w') \<longleftrightarrow>
                length s = length [7, 8 :: nat]
                \<and> w' = ex_world\<lparr>np_random := sdrop (length [7, 8 :: nat]) (np_random ex_world)\<rparr>
                \<and> (\<exists>l. logsumexp (map (\<lambda>i. elem a i (length [7, 8 :: nat] - 1)) [0..<nstates ?m])
                         = Inr l
                     \<and> choice ex_env (nstates ?m)
                          (exp_minus (map (\<lambda>i. elem a i (length [7, 8 :: nat] - 1)) [0..<nstates ?m]) l)
                          (np_random ex_world !! 0)
                        = Inr (s ! (length [7, 8 :: nat] - 1)))
                \<and> (\<forall>t. t + 1 < length [7, 8 :: nat] \<longrightarrow>
                      s ! (t + 1) < nstates ?m
                      \<and> (\<exists>l. logsumexp (map (\<lambda>i. elem a i t + elem (logTij ?m) i (s ! (t + 1)))
                                          [0..<nstates ?m]) = Inr l
                           \<and> choice ex_env (nstates ?m)
                                (exp_minus (map (\<lambda>i. elem a i t + elem (logTij ?m) i (s ! (t + 1)))
                                              [0..<nstates ?m]) l)
                                (np_random ex_world !! (length [7, 8 :: nat] - 1 - t))
                              = Inr (s ! t)))"
    by blast
  note props = iff [THEN iffD1, OF run]
  have w': "ex_world\<lparr>np_random := sconst 0\<rparr>
              = ex_world\<lparr>np_random := sdrop 2 (np_random ex_world)\<rparr>"
    using props [THEN conjunct2, THEN conjunct1] by (simp add: numeral_2_eq_2)
  have d1: "\<exists>l. logsumexp (map (\<lambda>i. elem a i 1) [0..<2]) = Inr l
              \<and> choice ex_env 2 (exp_minus (map (\<lambda>i. elem a i 1) [0..<2]) l) 0 = Inr 0"
    using props [THEN conjunct2, THEN conjunct2, THEN conjunct1] unfolding n g by simp
  have d0: "\<exists>l. logsumexp (map (\<lambda>i. elem a i 0 + elem (logTij ?m) i 0) [0..<2]) = Inr l
              \<and> choice ex_env 2
                   (exp_minus (map (\<lambda>i. elem a i 0 + elem (logTij ?m) i 0) [0..<2]) l) 1
                 = Inr 1"
    using props [THEN conjunct2, THEN conjunct2, THEN conjunct2, rule_format, of 0]
    unfolding n by (simp add: ex_world_def)
  have pw: "logsumexp [Fin 0, NInf] = Inr (Fin 0)
            \<and> exp_minus [Fin 0, NInf] (Fin 0) = [Fin 1, Fin 0]"
    using bpd [THEN conjunct2, THEN conjunct2, THEN conjunct1, rule_format, OF lw] by simp
  have pf: "logsumexp [Fin 0, Fin 0] = Inr (Fin (ln 2))
            \<and> exp_minus [Fin 0, Fin 0] (Fin (ln 2)) = [Fin (1 / 2), Fin (1 / 2)]"
    using bpd [THEN conjunct2, THEN conjunct2, THEN conjunct2, rule_format, OF ne2] by simp
  show ?thesis
    using wf ne ch run [unfolded w'] a d1 d0 lw ne2 pw pf
    by (intro conjI exI [of _ a]) simp_all
qed



section \<open>Claims about the Gibbs sweep and the sampling loop\<close>

text \<open>
  C6. A sampler constructed with \<open>reversible=False\<close> has that attribute
  (\<open>init_attributes\<close>). For a sampler with \<open>reversible = False\<close>, the transition
  matrix update raises the exception for the unimplemented non-reversible sampling,
  in every state and whatever the collaborators do: there is no fall-back. A call
  of \<open>sample\<close> that makes at least one sweep (\<open>nburn > 0\<close>, or \<open>nsamples > 0\<close> and
  \<open>nthin > 0\<close>) therefore never returns samples: it aborts in its first sweep, with
  that exception unless the trajectory resampling of that sweep has already raised
  one.
\<close>

theorem non_reversible_fails_fast:
  assumes "\<not> reversible self"
  shows "updateTransitionMatrix e self w = Inl NonReversibleNotImplemented
    \<and> (0 < nburn \<or> (0 < nsamples \<and> 0 < nthin) \<longrightarrow>
        sample e self nsamples nburn nthin save w =
          (case updateHiddenStateTrajectories e self w of
             Inl err \<Rightarrow> Inl err
           | Inr w' \<Rightarrow> Inl NonReversibleNotImplemented))"
proof (intro conjI impI)
  show "updateTransitionMatrix e self w = Inl NonReversibleNotImplemented"
    using assms by (simp add: updateTransitionMatrix_def)
next
  assume a: "0 < nburn \<or> (0 < nsamples \<and> 0 < nthin)"
  let ?r = "case updateHiddenStateTrajectories e self w of Inl err \<Rightarrow> Inl err
           | Inr w' \<Rightarrow> Inl NonReversibleNotImplemented"
  have u: "update e self w = ?r" by (rule update_non_reversible [OF assms])
  show "sample e self nsamples nburn nthin save w = ?r"
  proof (cases "0 < nburn")
    case True
    then show ?thesis
      by (simp add: sample_def py_range_pos u split: sum.splits)
  next
    case False
    with a have b: "0 < nsamples" "0 < nthin" "nburn \<le> 0" by auto
    then show ?thesis
      by (simp add: sample_def py_range_pos py_range_nonpos u split: sum.splits)
  qed
qed

theorem non_reversible_fails_fast_witness:
  "init (\<lambda>obs n r ty w. Inl ValueError) [[7, 8]] 2 (Some 0) False False 1000 ''gaussian'' ex_world
     = Inr (ex_bhmm\<lparr>reversible := False, model := 1\<rparr>, snd (deepcopy 0 ex_world))
   \<and> \<not> reversible (ex_bhmm\<lparr>reversible := False, model := 1\<rparr>)
   \<and> updateTransitionMatrix ex_env (ex_bhmm\<lparr>reversible := False, model := 1\<rparr>)
         (snd (deepcopy 0 ex_world))
       = Inl NonReversibleNotImplemented
   \<and> (0 < (1::int) \<and> 0 < (1::int))
   \<and> sample ex_env (ex_bhmm\<lparr>reversible := False, model := 1\<rparr>) 1 0 1 False
         (snd (deepcopy 0 ex_world))
       = Inl NonReversibleNotImplemented"
proof -
  let ?self = "ex_bhmm\<lparr>reversible := False, model := 1\<rparr>"
  let ?w = "snd (deepcopy 0 ex_world)"
  have i: "init (\<lambda>obs n r ty w. Inl ValueError) [[7, 8]] 2 (Some 0) False False 1000
             ''gaussian'' ex_world = Inr (?self, ?w)"
    by (simp add: init_def ex_defs deepcopy_def Let_def)
  have r: "\<not> reversible ?self" by simp
  have u: "\<exists>w'. updateHiddenStateTrajectories ex_env ?self ?w = Inr w'"
    by (simp add: ex_defs sampler_defs upt_conv_Cons numeral_2_eq_2 Let_def)
  show ?thesis
    using non_reversible_fails_fast [OF r, of ex_env ?w 0 1 1 False] u i r by auto
qed

text \<open>
  C1 (the code departs from the claim). With \<open>save_hidden_state_trajectory = False\<close>,
  \<open>sample\<close> assigns \<^verbatim>\<open>None\<close> to the attribute \<^verbatim>\<open>hidden_state_trajectory\<close> of the copy,
  while the sweep stores the trajectories in \<^verbatim>\<open>hidden_state_trajectories\<close>. On the
  example (one sample, no burn-in, one sweep per sample) the returned copy, at
  address 1, still carries the trajectory \<open>[1, 0]\<close> that the sweep has drawn.
\<close>

theorem sample_leaves_trajectories_in_copy:
  "sample ex_env ex_bhmm 1 0 1 False ex_world
     = Inr ([1],
            \<lparr>hmm_objects =
               [ex_hmm\<lparr>hidden_state_trajectories := Val [[1, 0]]\<rparr>,
                ex_hmm\<lparr>output_model := 1, hidden_state_trajectories := Val [[1, 0]],
                        hidden_state_trajectory := PyNone\<rparr>],
             output_model_objects = [(), ()],
             np_random = sconst 0\<rparr>)
   \<and> hidden_state_trajectories
        (deref \<lparr>hmm_objects =
                  [ex_hmm\<lparr>hidden_state_trajectories := Val [[1, 0]]\<rparr>,
                   ex_hmm\<lparr>output_model := 1, hidden_state_trajectories := Val [[1, 0]],
                           hidden_state_trajectory := PyNone\<rparr>],
                output_model_objects = [(), ()],
                np_random = sconst (0::nat)\<rparr> 1) = Val [[1, 0]]"
  by (simp add: ex_defs sampler_defs upt_conv_Cons numeral_2_eq_2 Let_def)

text \<open>
  C5. In a well-formed world, \<open>sample\<close> behaves as \<open>nburn + nsamples * nthin\<close> sweeps in
  a row (a negative count acts as 0): it raises exactly the exception that those
  sweeps raise, and it returns exactly when they all succeed. When it returns, it
  returns \<open>nsamples\<close> snapshots in order; the sampler's model and the generator are as
  those sweeps leave them; and snapshot number \<open>k\<close> (from 0) is the value the model
  has after \<open>nburn + (k + 1) * nthin\<close> sweeps, so after burn-in and after the last of
  the \<open>nthin\<close> sweeps of its sample (with \<^verbatim>\<open>hidden_state_trajectory\<close> set to \<^verbatim>\<open>None\<close>
  unless the trajectories are kept). \<open>sample(nsamples=0, nburn=0)\<close> returns the empty
  list and changes nothing.
\<close>

theorem sample_schedule:
  fixes e :: "('o, 'p, 'u) env" and w :: "('p, 'u) world"
  assumes "wf_world self w"
  shows "(\<forall>err. sample e self nsamples nburn nthin save w = Inl err \<longleftrightarrow>
            sweeps e self (nat nburn + nat nsamples * nat nthin) w = Inl err)
     \<and> ((\<exists>wn. sweeps e self (nat nburn + nat nsamples * nat nthin) w = Inr wn) \<longrightarrow>
          (\<exists>models w'. sample e self nsamples nburn nthin save w = Inr (models, w')))
     \<and> (\<forall>models w'. sample e self nsamples nburn nthin save w = Inr (models, w') \<longrightarrow>
          length models = nat nsamples
          \<and> (\<exists>wn. sweeps e self (nat nburn + nat nsamples * nat nthin) w = Inr wn
                \<and> deref w' (model self) = deref wn (model self)
                \<and> np_random w' = np_random wn)
          \<and> (\<forall>k<nat nsamples.
                \<exists>wk. sweeps e self (nat nburn + (k + 1) * nat nthin) w = Inr wk
                   \<and> deref w' (models ! k) = snapshot save (deref wk (model self))))
     \<and> sample e self 0 0 nthin save w = Inr ([], w)"
proof (intro conjI allI impI)
  let ?N = "nat nburn + nat nsamples * nat nthin"
  note sim = sample_simulates_sweeps [OF assms, of e nburn save nthin nsamples]
  show "sample e self nsamples nburn nthin save w = Inl err \<longleftrightarrow> sweeps e self ?N w = Inl err"
    for err
    using sim
    by (cases "sample e self nsamples nburn nthin save w"; cases "sweeps e self ?N w") auto
  show "\<exists>models w'. sample e self nsamples nburn nthin save w = Inr (models, w')"
    if "\<exists>wn. sweeps e self ?N w = Inr wn"
    using sim that
    by (cases "sample e self nsamples nburn nthin save w"; cases "sweeps e self ?N w") auto
  show "sample e self 0 0 nthin save w = Inr ([], w)"
    by (simp add: sample_def py_range_def)
  fix models w'
  assume run: "sample e self nsamples nburn nthin save w = Inr (models, w')"
  from sample_collected [OF assms run]
  obtain wb wn where b: "sweeps e self (nat nburn) w = Inr wb"
    and n: "sweeps e self ?N w = Inr wn"
    and c: "collected e self save (nat nthin) wb (nat nsamples) (models, w') wn"
    by blast
  show "length models = nat nsamples" using c by (simp add: collected_def)
  show "\<exists>wn. sweeps e self ?N w = Inr wn
                \<and> deref w' (model self) = deref wn (model self)
                \<and> np_random w' = np_random wn"
    using n c by (auto simp: collected_def same_live_def)
  show "\<exists>wk. sweeps e self (nat nburn + (k + 1) * nat nthin) w = Inr wk
                   \<and> deref w' (models ! k) = snapshot save (deref wk (model self))"
    if "k < nat nsamples" for k
    by (rule collected_snapshots [OF b c that])
qed

theorem sample_schedule_witness:
  "wf_world ex_bhmm ex_world
   \<and> (\<exists>models w'. sample ex_env ex_bhmm 1 0 1 False ex_world = Inr (models, w')
         \<and> length models = 1
         \<and> (\<exists>wk. sweeps ex_env ex_bhmm 1 ex_world = Inr wk
               \<and> deref w' (models ! 0) = snapshot False (deref wk (model ex_bhmm))))"
proof -
  from sample_schedule [OF ex_wf_world, of ex_env 1 0 1 False] ex_sample
  obtain models w' where r: "sample ex_env ex_bhmm 1 0 1 False ex_world = Inr (models, w')"
    and l: "length models = nat 1"
    and s: "\<forall>k<nat 1. \<exists>wk. sweeps ex_env ex_bhmm (nat 0 + (k + 1) * nat 1) ex_world = Inr wk
                   \<and> deref w' (models ! k) = snapshot False (deref wk (model ex_bhmm))"
    by blast
  from s [rule_format, of 0]
  have "\<exists>wk. sweeps ex_env ex_bhmm 1 ex_world = Inr wk
               \<and> deref w' (models ! 0) = snapshot False (deref wk (model ex_bhmm))"
    by simp
  then show ?thesis using ex_wf_world r l by auto
qed

text \<open>
  C8. Every snapshot that \<open>sample\<close> returns is a copy of the model as it was after the
  sweeps of its sample, held in objects of its own: it is not the sampler's model and
  does not share its output model. Its value is therefore unchanged by any number of
  further sweeps, by any later call of \<open>sample\<close>, and by any assignment to the
  sampler's model object or to that model's output model.
\<close>

theorem snapshots_are_isolated:
  fixes e :: "('o, 'p, 'u) env" and w :: "('p, 'u) world"
  assumes "wf_world self w"
    and "sample e self nsamples nburn nthin save w = Inr (models, w1)"
  shows "(\<forall>k<length models.
            \<exists>wk. sweeps e self (nat nburn + (k + 1) * nat nthin) w = Inr wk
               \<and> deref w1 (models ! k) = snapshot save (deref wk (model self)))
     \<and> (\<forall>a\<in>set models. separate self w1 a)
     \<and> (\<forall>a\<in>set models. \<forall>k w2. sweeps e self k w1 = Inr w2 \<longrightarrow> deref w2 a = deref w1 a)
     \<and> (\<forall>a\<in>set models. \<forall>n b t s models2 w2.
            sample e self n b t s w1 = Inr (models2, w2) \<longrightarrow> deref w2 a = deref w1 a)
     \<and> (\<forall>a\<in>set models. \<forall>f om.
            deref (set_model (model self) f
                    (w1\<lparr>output_model_objects :=
                          (output_model_objects w1)
                            [output_model (hmm_objects w1 ! model self) := om]\<rparr>)) a
              = deref w1 a)"
proof -
  from sample_collected [OF assms]
  obtain wb wn where b: "sweeps e self (nat nburn) w = Inr wb"
    and c: "collected e self save (nat nthin) wb (nat nsamples) (models, w1) wn"
    by blast
  have len: "length models = nat nsamples" using c by (simp add: collected_def)
  have wf1: "wf_world self w1" using c by (simp add: collected_def same_live_def)
  have sep: "separate self w1 a" if "a \<in> set models" for a
  proof -
    from that obtain k where "k < length models" "models ! k = a"
      by (auto simp: in_set_conv_nth)
    then show ?thesis using c len by (auto simp: collected_def)
  qed
  have p1: "\<forall>k<length models.
            \<exists>wk. sweeps e self (nat nburn + (k + 1) * nat nthin) w = Inr wk
               \<and> deref w1 (models ! k) = snapshot save (deref wk (model self))"
    using collected_snapshots [OF b c] len by simp
  have p3: "deref w2 a = deref w1 a" if "a \<in> set models" "sweeps e self k w1 = Inr w2" for a k w2
    using only_live_changed_deref [OF sweeps_live [OF that(2)] sep [OF that(1)]] .
  have p4: "deref w2 a = deref w1 a"
    if a: "a \<in> set models" and r: "sample e self n b t s w1 = Inr (models2, w2)"
    for a n b t s models2 w2
  proof -
    from sample_collected [OF wf1 r]
    obtain wb2 wn2 where l2: "only_live_changed self w1 wb2"
      and c2: "collected e self s (nat t) wb2 (nat n) (models2, w2) wn2"
      by blast
    have "separate self wb2 a" "deref wb2 a = deref w1 a"
      using only_live_changed_separate [OF l2 sep [OF a]]
        only_live_changed_deref [OF l2 sep [OF a]] by simp_all
    then show ?thesis using c2 by (simp add: collected_def)
  qed
  have p5: "deref (set_model (model self) f
                    (w1\<lparr>output_model_objects :=
                          (output_model_objects w1)
                            [output_model (hmm_objects w1 ! model self) := om]\<rparr>)) a
              = deref w1 a" if "a \<in> set models" for a f om
    using sep [OF that] by (simp add: separate_def deref_def set_model_def)
  show ?thesis using p1 sep p3 p4 p5 by blast
qed

theorem snapshots_are_isolated_witness:
  "wf_world ex_bhmm ex_world
   \<and> (\<exists>w1. sample ex_env ex_bhmm 1 0 1 False ex_world = Inr ([1], w1)
         \<and> separate ex_bhmm w1 1
         \<and> (\<exists>w2. sweeps ex_env ex_bhmm 1 w1 = Inr w2 \<and> deref w2 1 = deref w1 1))"
proof -
  let ?w1 = "\<lparr>hmm_objects =
               [ex_hmm\<lparr>hidden_state_trajectories := Val [[1, 0]]\<rparr>,
                ex_hmm\<lparr>output_model := 1, hidden_state_trajectories := Val [[1, 0]],
                        hidden_state_trajectory := PyNone\<rparr>],
             output_model_objects = [(), ()],
             np_random = sconst (0::nat)\<rparr>"
  note iso = snapshots_are_isolated [OF ex_wf_world ex_sample]
  have s: "separate ex_bhmm ?w1 1" using iso by simp
  have "\<exists>w2. sweeps ex_env ex_bhmm 1 ?w1 = Inr w2"
    by (simp add: sweeps_def ex_defs sampler_defs upt_conv_Cons numeral_2_eq_2 Let_def)
  then obtain w2 where w2: "sweeps ex_env ex_bhmm 1 ?w1 = Inr w2" ..
  have "deref w2 1 = deref ?w1 1" using iso w2 by simp
  then show ?thesis using ex_wf_world ex_sample s w2 by blast
qed

section \<open>Claims about the initial-model dispatch\<close>

text \<open>
  C10. For every output model type string other than 'discrete' and 'gaussian',
  \<open>generate_initial_model\<close> raises NotImplementedError whatever the initialisers would
  do (none of them is run, so no initial model is constructed); for exactly the tags
  'discrete' and 'gaussian' the result is that of the discrete, respectively the
  gaussian, initialiser, called with the observations, the number of states,
  \<open>reversible=True\<close> and the verbosity flag (and \<open>lag=1\<close> for the discrete one).
\<close>

theorem generate_initial_model_dispatch:
  "(output_model_type \<noteq> ''discrete'' \<and> output_model_type \<noteq> ''gaussian'' \<longrightarrow>
      (\<exists>msg. \<forall>run. generate_initial_model run obs n output_model_type v
                   = (Inl (NotImplementedError msg) :: error + 'm)))
   \<and> generate_initial_model run' obs n ''discrete'' v
        = run' (Initial_model_discrete obs n 1 True v)
   \<and> generate_initial_model run' obs n ''gaussian'' v
        = run' (Initial_model_gaussian1d obs n True v)"
proof (intro conjI impI)
  assume "output_model_type \<noteq> ''discrete'' \<and> output_model_type \<noteq> ''gaussian''"
  then show "\<exists>msg. \<forall>run. generate_initial_model run obs n output_model_type v
                   = (Inl (NotImplementedError msg) :: error + 'm)"
    by (simp add: generate_initial_model_def)
next
  show "generate_initial_model run' obs n ''discrete'' v
        = run' (Initial_model_discrete obs n 1 True v)"
    by (simp add: generate_initial_model_def)
next
  show "generate_initial_model run' obs n ''gaussian'' v
        = run' (Initial_model_gaussian1d obs n True v)"
    by (simp add: generate_initial_model_def)
qed

theorem generate_initial_model_dispatch_witness:
  "(\<exists>msg. \<forall>run. generate_initial_model run [[1::nat]] 2 ''poisson'' False
                   = (Inl (NotImplementedError msg) :: error + unit))
   \<and> generate_initial_model (\<lambda>c. Inr c) [[1::nat]] 2 ''discrete'' False
        = Inr (Initial_model_discrete [[1]] 2 1 True False)
   \<and> generate_initial_model (\<lambda>c. Inr c) [[1::nat]] 2 ''gaussian'' False
        = Inr (Initial_model_gaussian1d [[1]] 2 True False)"
  using generate_initial_model_dispatch
    [of "''poisson''" "[[1::nat]]" 2 False "\<lambda>c. Inr c", where ?'m = unit]
  by simp

end
